theory Spec2Isabelle
  imports Main "HOL-Library.Multiset"
begin

section \<open>Data model of the backend (serve.go, discounts.go)\<close>

text \<open>
  A \<open>primitive.ObjectID\<close> is twelve opaque bytes of which the code only uses equality
  and \<open>IsZero\<close>. It is modelled as a natural number, \<open>0\<close> being the zero ObjectID.
  Go's \<open>int\<close> fields are \<open>int\<close>; none of them takes part in arithmetic here.
\<close>

type_synonym ObjectID = nat

definition IsZero :: "ObjectID \<Rightarrow> bool" where
  "IsZero oid = (oid = 0)"

record Item =
  item_ID :: ObjectID
  item_Name :: string
  item_Type :: string
  item_ImgUrl :: string

record StepItem =
  si_ItemID :: ObjectID
  si_Amount :: int
  si_Unit :: string
  si_Item :: Item

record BakingStepInformation =
  bake_Temperature :: int
  bake_BakingType :: string

record AdditionalStepInformation =
  add_Type :: string
  add_Baking :: BakingStepInformation

record Step =
  step_Description :: string
  step_Items :: "StepItem list"
  step_ImgUrl :: string
  step_Duration :: int
  step_Additional :: "AdditionalStepInformation option"

record Props =
  props_Url :: string
  props_ImgUrl :: string
  props_Duration :: int
  props_CreatedAt :: int
  props_Tags :: "string list"
  props_Likes :: int

record Recipe =
  recipe_ID :: ObjectID
  recipe_Name :: string
  recipe_Author :: string
  recipe_Description :: string
  recipe_Items :: "StepItem list"
  recipe_Steps :: "Step list"
  recipe_Props :: Props
  recipe_Deleted :: bool

text \<open>The zero value \<open>Item{}\<close>.\<close>

definition zero_Item :: Item where
  "zero_Item = \<lparr>item_ID = 0, item_Name = [], item_Type = [], item_ImgUrl = []\<rparr>"

section \<open>Hydration: \<open>MapItemIdsToItem\<close>\<close>

text \<open>
  The first loop of \<open>MapItemIdsToItem\<close> fills a Go map from item id to item; a later
  item with the same id overwrites an earlier one.
\<close>

definition itemsMap_of :: "Item list \<Rightarrow> (ObjectID \<rightharpoonup> Item)" where
  "itemsMap_of items = fold (\<lambda>it m. m(item_ID it \<mapsto> it)) items Map.empty"

text \<open>Reading a Go map at a missing key yields the zero value of the value type.\<close>

definition index_items :: "(ObjectID \<rightharpoonup> Item) \<Rightarrow> ObjectID \<Rightarrow> Item" where
  "index_items m k = (case m k of None \<Rightarrow> zero_Item | Some it \<Rightarrow> it)"

definition hydrate_StepItem :: "(ObjectID \<rightharpoonup> Item) \<Rightarrow> StepItem \<Rightarrow> StepItem" where
  "hydrate_StepItem m si = si\<lparr>si_Item := index_items m (si_ItemID si)\<rparr>"

definition hydrate_Step :: "(ObjectID \<rightharpoonup> Item) \<Rightarrow> Step \<Rightarrow> Step" where
  "hydrate_Step m st = st\<lparr>step_Items := map (hydrate_StepItem m) (step_Items st)\<rparr>"

text \<open>
  The method mutates the recipe through its pointer receiver; the model returns the
  mutated recipe. Only the step items inside \<open>Steps\<close> are touched, the top-level
  \<open>Items\<close> of the recipe are not.
\<close>

definition MapItemIdsToItem :: "Recipe \<Rightarrow> Item list \<Rightarrow> Recipe" where
  "MapItemIdsToItem recipe items =
     recipe\<lparr>recipe_Steps := map (hydrate_Step (itemsMap_of items)) (recipe_Steps recipe)\<rparr>"

section \<open>Choice of the best item per name (first loop of \<open>CleanUpItemsInRecipes\<close>)\<close>

text \<open>
  \<open>GetItemQuality\<close> is defined elsewhere in the backend; the loop only compares its
  results, so it is a parameter \<open>q\<close> of the model.
\<close>

definition best_step :: "(Item \<Rightarrow> int) \<Rightarrow> Item \<Rightarrow> (string \<rightharpoonup> Item) \<Rightarrow> (string \<rightharpoonup> Item)" where
  "best_step q item itemMap =
     (case itemMap (item_Name item) of
        Some itemFromMap \<Rightarrow>
          if q item > q itemFromMap then itemMap(item_Name item \<mapsto> item) else itemMap
      | None \<Rightarrow> itemMap(item_Name item \<mapsto> item))"

definition best_itemMap :: "(Item \<Rightarrow> int) \<Rightarrow> Item list \<Rightarrow> (string \<rightharpoonup> Item)" where
  "best_itemMap q items = fold (best_step q) items Map.empty"

text \<open>
  The item the loop is meant to keep for a name: an item of that name such that the items
  of the name before it score strictly less and the items after it score no more.
\<close>

definition first_best :: "(Item \<Rightarrow> int) \<Rightarrow> Item list \<Rightarrow> string \<Rightarrow> Item \<Rightarrow> bool" where
  "first_best q items n it \<longleftrightarrow>
     (\<exists>pre post. items = pre @ it # post \<and> item_Name it = n \<and>
        (\<forall>j \<in> set pre. item_Name j = n \<longrightarrow> q j < q it) \<and>
        (\<forall>j \<in> set post. item_Name j = n \<longrightarrow> q j \<le> q it))"

section \<open>Suggestion filter of the frontend (types.ts)\<close>

text \<open>
  An \<open>ItemQuery\<close> has two optional fields; \<open>undefined\<close> is \<open>None\<close>. Of the frontend's
  \<open>Recipe\<close> class, \<open>hasItem\<close> reads only \<open>computed.itemsById\<close>, an object used as a
  dictionary from item id to step item.
\<close>

record ItemQuery =
  iq_id :: "string option"
  iq_exclude :: "bool option"

record 'v RecipeTS =
  computed_itemsById :: "string \<rightharpoonup> 'v"

text \<open>
  \<open>itemsById\<close> is created by an object literal, so a lookup also finds the property
  names inherited from \<open>Object.prototype\<close> (such as \<open>constructor\<close>); which names those
  are is the parameter \<open>inherited\<close>.
\<close>

definition hasItem :: "(string \<Rightarrow> bool) \<Rightarrow> 'v RecipeTS \<Rightarrow> string option \<Rightarrow> bool" where
  "hasItem inherited recipe ident =
     (case ident of
        None \<Rightarrow> False
      | Some i \<Rightarrow> computed_itemsById recipe i \<noteq> None \<or> inherited i)"

text \<open>
  The callback given to \<open>every\<close>: \<open>itemExists !== itemQ.exclude\<close> compares a boolean
  with a boolean or \<open>undefined\<close> without conversion.
\<close>

definition itemQ_holds :: "(string \<Rightarrow> bool) \<Rightarrow> 'v RecipeTS \<Rightarrow> ItemQuery \<Rightarrow> bool" where
  "itemQ_holds inherited recipe itemQ =
     (let itemExists = hasItem inherited recipe (iq_id itemQ)
      in Some itemExists \<noteq> iq_exclude itemQ)"

definition filterRecipeByItems :: "(string \<Rightarrow> bool) \<Rightarrow> 'v RecipeTS \<Rightarrow> ItemQuery list \<Rightarrow> bool" where
  "filterRecipeByItems inherited recipe itemQuery =
     list_all (itemQ_holds inherited recipe) itemQuery"

section \<open>Errors, discounts and the document store\<close>

text \<open>
  A Go \<open>error\<close> value is identified by its message; a \<open>nil\<close> error is \<open>None\<close> of
  \<open>error option\<close>. A function that returns a value together with an error returns a
  pair in the model, since the code returns both.
\<close>

datatype error = Error string

definition errors_New :: "string \<Rightarrow> error" where
  "errors_New msg = Error msg"

record Discount =
  disc_ID :: ObjectID
  disc_Title :: string
  disc_Price :: string
  disc_ImageUrl :: string
  disc_ValidUntil :: int
  disc_MarketName :: string
  disc_InternalMarketID :: string
  disc_Tags :: "string list"

text \<open>
  Modelled from the spec: the \<open>Market\<close> struct, which is declared elsewhere in the
  backend. Section 3 gives it an identifier, a city and a distributor tag; the code
  shown reads \<open>Distributor\<close> only.
\<close>

record Market =
  market_ID :: string
  market_City :: string
  market_Distributor :: string

text \<open>
  The document store is an external collaborator. Its three collections are lists in the
  store's natural order. What a call to the store returns is not decided by the program:
  \<open>faults\<close> lists the outcomes of the store calls still to come (\<open>Some err\<close>: the call
  fails with \<open>err\<close>), and a call made after the list is used up succeeds. \<open>now\<close> is the
  reading of \<open>time.Now()\<close>.
\<close>

record world =
  recipes_coll :: "Recipe list"
  items_coll :: "Item list"
  discounts_coll :: "Discount list"
  faults :: "error option list"
  now :: int

definition store_call :: "world \<Rightarrow> error option \<times> world" where
  "store_call w = (case faults w of [] \<Rightarrow> (None, w) | f # fs \<Rightarrow> (f, w\<lparr>faults := fs\<rparr>))"

text \<open>A fresh ObjectID, as the driver generates one for a document inserted without.\<close>

definition fresh_id :: "ObjectID list \<Rightarrow> ObjectID" where
  "fresh_id ids = Suc (fold max ids 0)"

text \<open>\<open>ObjectID.Hex\<close>: the twelve bytes as 24 hexadecimal digits.\<close>

definition hex_char :: "nat \<Rightarrow> char" where
  "hex_char d = ''0123456789abcdef'' ! (d mod 16)"

fun hex_digits :: "nat \<Rightarrow> nat \<Rightarrow> string" where
  "hex_digits 0 n = []"
| "hex_digits (Suc k) n = hex_digits k (n div 16) @ [hex_char n]"

definition Hex :: "ObjectID \<Rightarrow> string" where
  "Hex oid = hex_digits 24 oid"

text \<open>
  The functions of the backend that are defined in files other than \<open>serve.go\<close> and
  \<open>discounts.go\<close> are parameters of the model, collected in one record. \<open>LogError\<close>
  writes a log line and hands an error back to its caller. \<open>Log\<close> and \<open>LogWarning\<close>
  only write log lines and have no counterpart in the model.
\<close>

datatype 'a outcome = Returned 'a | Panicked

record env =
  LogError :: "string \<Rightarrow> error \<Rightarrow> error"
  GetItemQuality :: "Item \<Rightarrow> int"
  GetAllItems :: "world \<Rightarrow> (Item list \<times> error option) \<times> world"
  AddOrUpdateItem :: "Item \<Rightarrow> world \<Rightarrow> (ObjectID \<times> error option) outcome \<times> world"
  GetAllMarketIDsByCity :: "string \<Rightarrow> string list"
  GetMarketsByCity :: "string \<Rightarrow> Market list \<times> error option"
  GetEdekaDiscounts :: "Market \<Rightarrow> Discount list \<times> error option"
  GetReweDiscounts :: "Market \<Rightarrow> Discount list \<times> error option"

section \<open>Reading discounts: \<open>GetDiscountsByCity\<close>\<close>

text \<open>
  A Go map that the code ranges over is an association list with distinct keys, in the
  order of insertion. \<open>range\<close> visits every entry once in an order the runtime chooses;
  that choice is the parameter \<open>iter\<close>, a rearrangement of the entries.
\<close>

definition discountsMap_put :: "Discount \<Rightarrow> (string \<times> Discount) list \<Rightarrow> (string \<times> Discount) list" where
  "discountsMap_put discount discountsMap =
     (if map_of discountsMap (disc_Title discount) = None
      then discountsMap @ [(disc_Title discount, discount)]
      else discountsMap)"

definition discountsMap_of :: "Discount list \<Rightarrow> (string \<times> Discount) list" where
  "discountsMap_of discounts = fold discountsMap_put discounts []"

text \<open>The query \<open>internalMarketId $in marketIds\<close>.\<close>

definition Find_discounts_in :: "string list \<Rightarrow> world \<Rightarrow> Discount list" where
  "Find_discounts_in marketIds w =
     filter (\<lambda>d. disc_InternalMarketID d \<in> set marketIds) (discounts_coll w)"

definition GetDiscountsByCity ::
  "env \<Rightarrow> ((string \<times> Discount) list \<Rightarrow> (string \<times> Discount) list) \<Rightarrow> string \<Rightarrow> world \<Rightarrow>
     (Discount list \<times> error option) \<times> world" where
  "GetDiscountsByCity e iter city w =
     (let marketIds = GetAllMarketIDsByCity e city in
      if length marketIds = 0
      then (([], Some (errors_New (''No markets found for '' @ city))), w)
      else
        (case store_call w of
           (Some err, w1) \<Rightarrow> (([], Some err), w1)
         | (None, w1) \<Rightarrow>
             (case store_call w1 of
                (Some err, w2) \<Rightarrow> (([], Some err), w2)
              | (None, w2) \<Rightarrow>
                  (let discounts = Find_discounts_in marketIds w2;
                       discountsMap = discountsMap_of discounts;
                       filteredDiscounts = map snd (iter discountsMap)
                   in ((filteredDiscounts, None), w2)))))"

section \<open>Fetching discounts: \<open>GetDiscountsFromAPI\<close> and \<open>GetDiscountsByCityFromAPI\<close>\<close>

definition GetDiscountsFromAPI :: "env \<Rightarrow> Market \<Rightarrow> Discount list \<times> error option" where
  "GetDiscountsFromAPI e market =
     (if market_Distributor market = ''edeka'' then GetEdekaDiscounts e market
      else if market_Distributor market = ''rewe'' then GetReweDiscounts e market
      else ([], None))"

text \<open>The loop over the markets, with the slice \<open>discounts\<close> it appends to.\<close>

fun fetch_markets :: "env \<Rightarrow> Market list \<Rightarrow> Discount list \<Rightarrow> Discount list" where
  "fetch_markets e [] discounts = discounts"
| "fetch_markets e (market # markets) discounts =
     (case GetDiscountsFromAPI e market of
        (discountsForMarket, Some err) \<Rightarrow> fetch_markets e markets discounts
      | (discountsForMarket, None) \<Rightarrow> fetch_markets e markets (discounts @ discountsForMarket))"

definition GetDiscountsByCityFromAPI :: "env \<Rightarrow> string \<Rightarrow> Discount list" where
  "GetDiscountsByCityFromAPI e city =
     (case GetMarketsByCity e city of
        (markets, Some err) \<Rightarrow> []
      | (markets, None) \<Rightarrow> fetch_markets e markets [])"

section \<open>Writing discounts: \<open>AddDiscounts\<close>\<close>

text \<open>
  \<open>UpdateOne\<close> with the filter \<open>{internalMarketId, title}\<close>, the update \<open>$set: discount\<close>
  and the upsert option. The first document that matches the filter is updated; if none
  matches, a document is inserted that has the fields of the filter and of the update.
  In the encoding of a \<open>Discount\<close> the fields \<open>_id\<close> and \<open>internalMarketId\<close> are left out
  when they are zero (\<open>omitempty\<close>), so the update leaves them as stored. The store
  refuses to change the \<open>_id\<close> of a stored document and to insert an \<open>_id\<close> a second
  time.
\<close>

definition same_key :: "Discount \<Rightarrow> Discount \<Rightarrow> bool" where
  "same_key a b \<longleftrightarrow>
     disc_InternalMarketID a = disc_InternalMarketID b \<and> disc_Title a = disc_Title b"

definition set_discount :: "Discount \<Rightarrow> Discount \<Rightarrow> Discount" where
  "set_discount discount stored =
     discount\<lparr>disc_ID := disc_ID stored,
              disc_InternalMarketID :=
                (if disc_InternalMarketID discount = [] then disc_InternalMarketID stored
                 else disc_InternalMarketID discount)\<rparr>"

fun update_first :: "('a \<Rightarrow> bool) \<Rightarrow> ('a \<Rightarrow> 'a) \<Rightarrow> 'a list \<Rightarrow> 'a list" where
  "update_first P f [] = []"
| "update_first P f (x # xs) = (if P x then f x # xs else x # update_first P f xs)"

definition UpdateOne_discount_upsert :: "Discount \<Rightarrow> world \<Rightarrow> error option \<times> world" where
  "UpdateOne_discount_upsert discount w =
     (case store_call w of
        (Some err, w1) \<Rightarrow> (Some err, w1)
      | (None, w1) \<Rightarrow>
          (case find (same_key discount) (discounts_coll w1) of
             Some stored \<Rightarrow>
               if \<not> IsZero (disc_ID discount) \<and> disc_ID discount \<noteq> disc_ID stored
               then (Some (Error ''immutable field _id''), w1)
               else (None, w1\<lparr>discounts_coll :=
                        update_first (same_key discount) (set_discount discount) (discounts_coll w1)\<rparr>)
           | None \<Rightarrow>
               if IsZero (disc_ID discount)
               then (None, w1\<lparr>discounts_coll := discounts_coll w1 @
                        [discount\<lparr>disc_ID := fresh_id (map disc_ID (discounts_coll w1))\<rparr>]\<rparr>)
               else if disc_ID discount \<in> set (map disc_ID (discounts_coll w1))
               then (Some (Error ''duplicate key _id''), w1)
               else (None, w1\<lparr>discounts_coll := discounts_coll w1 @ [discount]\<rparr>)))"

fun AddDiscounts :: "env \<Rightarrow> Discount list \<Rightarrow> world \<Rightarrow> error option \<times> world" where
  "AddDiscounts e [] w = (None, w)"
| "AddDiscounts e (discount # discounts) w =
     (case UpdateOne_discount_upsert discount w of
        (Some err, w1) \<Rightarrow>
          (Some (LogError e (''AddDiscounts + '' @ Hex (disc_ID discount)) err), w1)
      | (None, w1) \<Rightarrow> AddDiscounts e discounts w1)"

text \<open>
  The discount that a read keeps for a title: the first one of that title in the list.
\<close>

definition first_titled :: "Discount list \<Rightarrow> Discount \<Rightarrow> bool" where
  "first_titled ds r \<longleftrightarrow>
     (\<exists>pre post. ds = pre @ r # post \<and> disc_Title r \<notin> disc_Title ` set pre)"

section \<open>Recipes in the store\<close>

text \<open>
  The field \<open>Item\<close> of a step item is not part of the stored document (\<open>bson:"-"\<close>): it
  is dropped when a recipe is encoded and is the zero item after decoding.
\<close>

definition strip_StepItem :: "StepItem \<Rightarrow> StepItem" where
  "strip_StepItem si = si\<lparr>si_Item := zero_Item\<rparr>"

definition strip_Step :: "Step \<Rightarrow> Step" where
  "strip_Step st = st\<lparr>step_Items := map strip_StepItem (step_Items st)\<rparr>"

definition bson_Recipe :: "Recipe \<Rightarrow> Recipe" where
  "bson_Recipe r = r\<lparr>recipe_Items := map strip_StepItem (recipe_Items r),
                      recipe_Steps := map strip_Step (recipe_Steps r)\<rparr>"

definition zero_Props :: Props where
  "zero_Props = \<lparr>props_Url = [], props_ImgUrl = [], props_Duration = 0, props_CreatedAt = 0,
                  props_Tags = [], props_Likes = 0\<rparr>"

text \<open>The zero value \<open>Recipe{}\<close>.\<close>

definition zero_Recipe :: Recipe where
  "zero_Recipe = \<lparr>recipe_ID = 0, recipe_Name = [], recipe_Author = [], recipe_Description = [],
     recipe_Items = [], recipe_Steps = [], recipe_Props = zero_Props, recipe_Deleted = False\<rparr>"

definition ErrNoDocuments :: error where
  "ErrNoDocuments = Error ''mongo: no documents in result''"

subsection \<open>\<open>GetAllRecipes\<close>, \<open>GetRecipeById\<close>, \<open>DeleteRecipeById\<close>\<close>

text \<open>
  \<open>GetAllRecipes\<close> makes two calls to the store (\<open>Find\<close> with the filter
  \<open>deleted $ne true\<close>, then \<open>cursor.All\<close>), reads all items and hydrates every recipe.
\<close>

definition GetAllRecipes :: "env \<Rightarrow> world \<Rightarrow> (Recipe list \<times> error option) \<times> world" where
  "GetAllRecipes e w =
     (case store_call w of
        (Some err, w1) \<Rightarrow> (([], Some (LogError e ''GetAllRecipes'' err)), w1)
      | (None, w1) \<Rightarrow>
          (case store_call w1 of
             (Some err, w2) \<Rightarrow> (([], Some (LogError e ''GetAllRecipes'' err)), w2)
           | (None, w2) \<Rightarrow>
               (let recipesFromDatabase =
                      map bson_Recipe (filter (\<lambda>r. recipe_Deleted r \<noteq> True) (recipes_coll w2))
                in case GetAllItems e w2 of
                     ((items, Some err), w3) \<Rightarrow> (([], Some (LogError e ''GetAllRecipes'' err)), w3)
                   | ((items, None), w3) \<Rightarrow>
                       ((map (\<lambda>recipe. MapItemIdsToItem recipe items) recipesFromDatabase, None),
                        w3))))"

text \<open>
  \<open>GetRecipeById\<close>: \<open>FindOne\<close> with the filter \<open>_id = id\<close> and nothing else, then
  \<open>Decode\<close>. \<open>FindOne\<close> reports \<open>ErrNoDocuments\<close> when no document has the id.
\<close>

definition GetRecipeById :: "env \<Rightarrow> ObjectID \<Rightarrow> world \<Rightarrow> (Recipe \<times> error option) \<times> world" where
  "GetRecipeById e ident w =
     (case store_call w of
        (Some err, w1) \<Rightarrow> ((zero_Recipe, Some (LogError e ''GetRecipeById'' err)), w1)
      | (None, w1) \<Rightarrow>
          (case find (\<lambda>r. recipe_ID r = ident) (recipes_coll w1) of
             None \<Rightarrow> ((zero_Recipe, Some (LogError e ''GetRecipeById'' ErrNoDocuments)), w1)
           | Some doc \<Rightarrow>
               (case store_call w1 of
                  (Some err, w2) \<Rightarrow> ((zero_Recipe, Some (LogError e ''GetRecipeById'' err)), w2)
                | (None, w2) \<Rightarrow> ((bson_Recipe doc, None), w2))))"

text \<open>\<open>DeleteRecipeById\<close>: \<open>UpdateByID\<close> with \<open>$set: {deleted: true}\<close>.\<close>

definition DeleteRecipeById :: "env \<Rightarrow> ObjectID \<Rightarrow> world \<Rightarrow> (ObjectID \<times> error option) \<times> world" where
  "DeleteRecipeById e ident w =
     (case store_call w of
        (Some err, w1) \<Rightarrow> ((ident, Some (LogError e ''DeleteRecipeById'' err)), w1)
      | (None, w1) \<Rightarrow>
          ((ident, None),
           w1\<lparr>recipes_coll := update_first (\<lambda>r. recipe_ID r = ident)
                                (\<lambda>r. r\<lparr>recipe_Deleted := True\<rparr>) (recipes_coll w1)\<rparr>))"

subsection \<open>\<open>PrepareRecipeForDB\<close> and \<open>AddOrUpdateRecipe\<close>\<close>

text \<open>
  \<open>PrepareRecipeForDB\<close> receives the recipe by value, but the slices \<open>Steps\<close> and
  \<open>Items\<close> of the copy share their arrays with the caller's recipe, and the loop writes
  through them. The model therefore returns the step items as the loop leaves them: those
  before a failure are rewritten, the failing one and those after it are untouched.
\<close>

fun prepare_items ::
  "env \<Rightarrow> Recipe \<Rightarrow> StepItem list \<Rightarrow> world \<Rightarrow> (StepItem list \<times> error option) outcome \<times> world" where
  "prepare_items e recipe [] w = (Returned ([], None), w)"
| "prepare_items e recipe (stepItem # rest) w =
     (case AddOrUpdateItem e (si_Item stepItem) w of
        (Panicked, w1) \<Rightarrow> (Panicked, w1)
      | (Returned (itemId, Some err), w1) \<Rightarrow>
          (Returned (stepItem # rest,
             Some (LogError e (''PrepareForDB + '' @ recipe_Name recipe @ '' + '' @
                               item_Name (si_Item stepItem)) err)), w1)
      | (Returned (itemId, None), w1) \<Rightarrow>
          (case prepare_items e recipe rest w1 of
             (Panicked, w2) \<Rightarrow> (Panicked, w2)
           | (Returned (rest', err), w2) \<Rightarrow>
               (Returned (stepItem\<lparr>si_ItemID := itemId, si_Item := zero_Item\<rparr> # rest', err), w2)))"

fun prepare_steps ::
  "env \<Rightarrow> Recipe \<Rightarrow> Step list \<Rightarrow> world \<Rightarrow> (Step list \<times> error option) outcome \<times> world" where
  "prepare_steps e recipe [] w = (Returned ([], None), w)"
| "prepare_steps e recipe (step # rest) w =
     (case prepare_items e recipe (step_Items step) w of
        (Panicked, w1) \<Rightarrow> (Panicked, w1)
      | (Returned (items', Some err), w1) \<Rightarrow>
          (Returned (step\<lparr>step_Items := items'\<rparr> # rest, Some err), w1)
      | (Returned (items', None), w1) \<Rightarrow>
          (case prepare_steps e recipe rest w1 of
             (Panicked, w2) \<Rightarrow> (Panicked, w2)
           | (Returned (rest', err), w2) \<Rightarrow>
               (Returned (step\<lparr>step_Items := items'\<rparr> # rest', err), w2)))"

definition PrepareRecipeForDB ::
  "env \<Rightarrow> Recipe \<Rightarrow> world \<Rightarrow> (Recipe \<times> error option) outcome \<times> world" where
  "PrepareRecipeForDB e recipe w =
     (case prepare_steps e recipe (recipe_Steps recipe) w of
        (Panicked, w1) \<Rightarrow> (Panicked, w1)
      | (Returned (steps', err), w1) \<Rightarrow> (Returned (recipe\<lparr>recipe_Steps := steps'\<rparr>, err), w1))"

text \<open>
  \<open>$set: newRecipe\<close> on a stored recipe. The encoding leaves out the top-level \<open>items\<close>
  when the slice is empty and \<open>deleted\<close> when it is false (\<open>omitempty\<close>), so these two
  fields are then kept as stored.
\<close>

definition set_recipe :: "Recipe \<Rightarrow> Recipe \<Rightarrow> Recipe" where
  "set_recipe newRecipe stored =
     (bson_Recipe newRecipe)
       \<lparr>recipe_Items := (if recipe_Items newRecipe = [] then recipe_Items stored
                         else map strip_StepItem (recipe_Items newRecipe)),
        recipe_Deleted := (if recipe_Deleted newRecipe then True else recipe_Deleted stored)\<rparr>"

text \<open>
  When \<open>InsertOne\<close> fails it returns a nil result, and the next statement,
  \<open>result.InsertedID\<close>, dereferences it before the error is looked at: the function
  panics. \<open>UpdateOne\<close> is called without the upsert option, so it changes nothing when
  no document has the id.
\<close>

definition AddOrUpdateRecipe ::
  "env \<Rightarrow> Recipe \<Rightarrow> world \<Rightarrow> (ObjectID \<times> error option) outcome \<times> world" where
  "AddOrUpdateRecipe e newRecipe0 w =
     (case PrepareRecipeForDB e newRecipe0 w of
        (Panicked, w1) \<Rightarrow> (Panicked, w1)
      | (Returned (newRecipe, Some err), w1) \<Rightarrow>
          (Returned (0, Some (LogError e (''AddOrUpdateRecipe + recipe '' @ recipe_Name newRecipe)
                                err)), w1)
      | (Returned (newRecipe, None), w1) \<Rightarrow>
          if IsZero (recipe_ID newRecipe) then
            (case store_call w1 of
               (Some err, w2) \<Rightarrow> (Panicked, w2)
             | (None, w2) \<Rightarrow>
                 (let objectId = fresh_id (map recipe_ID (recipes_coll w2));
                      doc = bson_Recipe
                        (newRecipe\<lparr>recipe_ID := objectId,
                           recipe_Props := (recipe_Props newRecipe)\<lparr>props_CreatedAt := now w2\<rparr>\<rparr>)
                  in (Returned (objectId, None), w2\<lparr>recipes_coll := recipes_coll w2 @ [doc]\<rparr>)))
          else
            (case store_call w1 of
               (Some err, w2) \<Rightarrow>
                 (Returned (recipe_ID newRecipe,
                    Some (LogError e (''AddOrUpdateRecipe + recipe '' @ recipe_Name newRecipe @
                            ''('' @ Hex (recipe_ID newRecipe) @ '')'') err)), w2)
             | (None, w2) \<Rightarrow>
                 (Returned (recipe_ID newRecipe, None),
                  w2\<lparr>recipes_coll := update_first (\<lambda>r. recipe_ID r = recipe_ID newRecipe)
                                       (set_recipe newRecipe) (recipes_coll w2)\<rparr>)))"

subsection \<open>\<open>CleanUpItemsInRecipes\<close>\<close>

text \<open>
  The second loop: every step item whose item's name has an entry in the map gets that
  entry as its item and the entry's id as its \<open>ItemID\<close>, and the counter goes up by one.
  The writes go through the shared slices, so the list \<open>recipes\<close> holds the rewritten
  step items afterwards.
\<close>

fun clean_items :: "(string \<rightharpoonup> Item) \<Rightarrow> StepItem list \<Rightarrow> nat \<Rightarrow> StepItem list \<times> nat" where
  "clean_items itemMap [] amountCleanedUp = ([], amountCleanedUp)"
| "clean_items itemMap (stepItem # rest) amountCleanedUp =
     (case itemMap (item_Name (si_Item stepItem)) of
        Some item \<Rightarrow>
          (let (rest', n) = clean_items itemMap rest (amountCleanedUp + 1)
           in (stepItem\<lparr>si_Item := item, si_ItemID := item_ID item\<rparr> # rest', n))
      | None \<Rightarrow>
          (let (rest', n) = clean_items itemMap rest amountCleanedUp
           in (stepItem # rest', n)))"

fun clean_steps :: "(string \<rightharpoonup> Item) \<Rightarrow> Step list \<Rightarrow> nat \<Rightarrow> Step list \<times> nat" where
  "clean_steps itemMap [] amountCleanedUp = ([], amountCleanedUp)"
| "clean_steps itemMap (step # rest) amountCleanedUp =
     (let (items', n1) = clean_items itemMap (step_Items step) amountCleanedUp;
          (rest', n2) = clean_steps itemMap rest n1
      in (step\<lparr>step_Items := items'\<rparr> # rest', n2))"

fun clean_recipes :: "(string \<rightharpoonup> Item) \<Rightarrow> Recipe list \<Rightarrow> nat \<Rightarrow> Recipe list \<times> nat" where
  "clean_recipes itemMap [] amountCleanedUp = ([], amountCleanedUp)"
| "clean_recipes itemMap (recipe # rest) amountCleanedUp =
     (let (steps', n1) = clean_steps itemMap (recipe_Steps recipe) amountCleanedUp;
          (rest', n2) = clean_recipes itemMap rest n1
      in (recipe\<lparr>recipe_Steps := steps'\<rparr> # rest', n2))"

text \<open>The third loop writes the recipes back and returns at the first error.\<close>

fun update_recipes :: "env \<Rightarrow> Recipe list \<Rightarrow> world \<Rightarrow> error option outcome \<times> world" where
  "update_recipes e [] w = (Returned None, w)"
| "update_recipes e (recipe # rest) w =
     (case AddOrUpdateRecipe e recipe w of
        (Panicked, w1) \<Rightarrow> (Panicked, w1)
      | (Returned (objectId, Some err), w1) \<Rightarrow>
          (Returned (Some (LogError e ''CleanUpItemsInRecipes'' err)), w1)
      | (Returned (objectId, None), w1) \<Rightarrow> update_recipes e rest w1)"

text \<open>
  \<open>CleanUpItemsInRecipes\<close> returns an error only. The number it has counted goes into
  the log line at its end; the model returns that number beside the error, \<open>None\<close> when
  the function returns before it reaches the log line.
\<close>

definition CleanUpItemsInRecipes :: "env \<Rightarrow> world \<Rightarrow> (error option \<times> nat option) outcome \<times> world" where
  "CleanUpItemsInRecipes e w =
     (case GetAllItems e w of
        ((items, Some err), w1) \<Rightarrow>
          (Returned (Some (LogError e ''CleanUpItemsInRecipes'' err), None), w1)
      | ((items, None), w1) \<Rightarrow>
          (let itemMap = best_itemMap (GetItemQuality e) items in
           case GetAllRecipes e w1 of
             ((recipes0, Some err), w2) \<Rightarrow>
               (Returned (Some (LogError e ''CleanUpItemsInRecipes'' err), None), w2)
           | ((recipes0, None), w2) \<Rightarrow>
               (let (recipes, amountCleanedUp) = clean_recipes itemMap recipes0 0 in
                case update_recipes e recipes w2 of
                  (Panicked, w3) \<Rightarrow> (Panicked, w3)
                | (Returned (Some err), w3) \<Rightarrow> (Returned (Some err, None), w3)
                | (Returned None, w3) \<Rightarrow> (Returned (None, Some amountCleanedUp), w3))))"

section \<open>One pass of \<open>CleanUpItemsInRecipes\<close>, step item by step item\<close>

text \<open>
  The functions of this section are not in the code. They describe, for the proofs, what
  the loops of \<open>CleanUpItemsInRecipes\<close> and \<open>PrepareRecipeForDB\<close> do to one step item,
  one step and one recipe.
\<close>

text \<open>The body of the second loop of \<open>CleanUpItemsInRecipes\<close> for one step item.\<close>

definition clean_StepItem :: "(string \<rightharpoonup> Item) \<Rightarrow> StepItem \<Rightarrow> StepItem" where
  "clean_StepItem itemMap stepItem =
     (case itemMap (item_Name (si_Item stepItem)) of
        Some item \<Rightarrow> stepItem\<lparr>si_Item := item, si_ItemID := item_ID item\<rparr>
      | None \<Rightarrow> stepItem)"

definition found_in :: "(string \<rightharpoonup> Item) \<Rightarrow> StepItem \<Rightarrow> bool" where
  "found_in itemMap stepItem \<longleftrightarrow> itemMap (item_Name (si_Item stepItem)) \<noteq> None"

text \<open>The body of the loop of \<open>PrepareRecipeForDB\<close> when \<open>AddOrUpdateItem\<close> answers with
  the id of the item it is given.\<close>

definition prep_StepItem :: "StepItem \<Rightarrow> StepItem" where
  "prep_StepItem stepItem =
     stepItem\<lparr>si_ItemID := item_ID (si_Item stepItem), si_Item := zero_Item\<rparr>"

definition on_items :: "(StepItem \<Rightarrow> StepItem) \<Rightarrow> Step \<Rightarrow> Step" where
  "on_items f st = st\<lparr>step_Items := map f (step_Items st)\<rparr>"

definition on_steps :: "(StepItem \<Rightarrow> StepItem) \<Rightarrow> Recipe \<Rightarrow> Recipe" where
  "on_steps f r = r\<lparr>recipe_Steps := map (on_items f) (recipe_Steps r)\<rparr>"

text \<open>The number of step items in the steps of a list of recipes.\<close>

definition count_StepItems :: "Recipe list \<Rightarrow> nat" where
  "count_StepItems rs =
     sum_list (map (\<lambda>r. sum_list (map (\<lambda>st. length (step_Items st)) (recipe_Steps r))) rs)"

text \<open>
  Two properties of the functions that are parameters of the model. \<open>scans_items\<close>:
  while the store does not fail, \<open>GetAllItems\<close> returns the items collection and changes
  nothing. \<open>knows_items\<close>: while the store does not fail, \<open>AddOrUpdateItem\<close>, given one of
  the stored items, returns the id of that item and changes nothing.
\<close>

definition scans_items :: "env \<Rightarrow> bool" where
  "scans_items e \<longleftrightarrow> (\<forall>v. faults v = [] \<longrightarrow> GetAllItems e v = ((items_coll v, None), v))"

definition knows_items :: "env \<Rightarrow> Item list \<Rightarrow> bool" where
  "knows_items e its \<longleftrightarrow>
     (\<forall>it v. faults v = [] \<and> items_coll v = its \<and> it \<in> set its \<longrightarrow>
        AddOrUpdateItem e it v = (Returned (item_ID it, None), v))"

text \<open>Every step item of the recipe carries an item of the list.\<close>

definition items_known :: "Item list \<Rightarrow> Recipe \<Rightarrow> bool" where
  "items_known its r \<longleftrightarrow>
     (\<forall>st \<in> set (recipe_Steps r). \<forall>si \<in> set (step_Items st). si_Item si \<in> set its)"

text \<open>Every step item of the recipe refers to the id of an item of the list.\<close>

definition resolved :: "Item list \<Rightarrow> Recipe \<Rightarrow> bool" where
  "resolved its r \<longleftrightarrow>
     (\<forall>st \<in> set (recipe_Steps r). \<forall>si \<in> set (step_Items st).
        si_ItemID si \<in> item_ID ` set its)"

text \<open>The write of \<open>AddOrUpdateRecipe\<close> for a recipe whose items are known.\<close>

definition write_back :: "Recipe \<Rightarrow> Recipe list \<Rightarrow> Recipe list" where
  "write_back r c =
     update_first (\<lambda>x. recipe_ID x = recipe_ID r) (set_recipe (on_steps prep_StepItem r)) c"

text \<open>
  What a pass computes for a stored recipe: \<open>pipeline\<close> is the step item in memory after
  decoding, hydration and the second loop, \<open>rewritten\<close> the recipe in memory,
  \<open>canon_StepItem\<close> and \<open>canon_Recipe\<close> what is stored after the write, and
  \<open>after_pass\<close> the store after all writes.
\<close>

definition pipeline :: "Item list \<Rightarrow> (string \<rightharpoonup> Item) \<Rightarrow> StepItem \<Rightarrow> StepItem" where
  "pipeline its m si =
     clean_StepItem m (hydrate_StepItem (itemsMap_of its) (strip_StepItem si))"

definition rewritten :: "Item list \<Rightarrow> (string \<rightharpoonup> Item) \<Rightarrow> Recipe \<Rightarrow> Recipe" where
  "rewritten its m r = on_steps (clean_StepItem m) (MapItemIdsToItem (bson_Recipe r) its)"

definition canon_StepItem :: "Item list \<Rightarrow> (string \<rightharpoonup> Item) \<Rightarrow> StepItem \<Rightarrow> StepItem" where
  "canon_StepItem its m si =
     strip_StepItem (prep_StepItem (clean_StepItem m
       (hydrate_StepItem (itemsMap_of its) (strip_StepItem si))))"

definition canon_Recipe :: "Item list \<Rightarrow> (string \<rightharpoonup> Item) \<Rightarrow> Recipe \<Rightarrow> Recipe" where
  "canon_Recipe its m r = set_recipe (on_steps prep_StepItem (rewritten its m r)) r"

definition after_pass :: "(Item \<Rightarrow> int) \<Rightarrow> world \<Rightarrow> world" where
  "after_pass q w =
     w\<lparr>recipes_coll :=
         map (\<lambda>r. if \<not> recipe_Deleted r
                  then canon_Recipe (items_coll w) (best_itemMap q (items_coll w)) r else r)
             (recipes_coll w)\<rparr>"

section \<open>Example data\<close>

text \<open>
  Modelled from the spec: \<open>GetItemQuality\<close>, which is defined elsewhere in the backend.
  Section 4.1 of the specification defines the score as the count of populated optional
  attributes (type set, image set). It is used for the concrete examples only; the
  theorems hold for every quality function.
\<close>

definition spec_GetItemQuality :: "Item \<Rightarrow> int" where
  "spec_GetItemQuality it =
     (if item_Type it \<noteq> [] then 1 else 0) + (if item_ImgUrl it \<noteq> [] then 1 else 0)"

definition flour_A :: Item where
  "flour_A = \<lparr>item_ID = 21, item_Name = ''Flour'', item_Type = [], item_ImgUrl = ''a.png''\<rparr>"

definition flour_B :: Item where
  "flour_B = \<lparr>item_ID = 22, item_Name = ''Flour'', item_Type = ''ingredient'',
              item_ImgUrl = ''b.png''\<rparr>"

definition flour_C :: Item where
  "flour_C = \<lparr>item_ID = 23, item_Name = ''Flour'', item_Type = ''ingredient'', item_ImgUrl = []\<rparr>"

definition salt :: Item where
  "salt = \<lparr>item_ID = 24, item_Name = ''Salt'', item_Type = [], item_ImgUrl = []\<rparr>"

definition stepItem_of :: "ObjectID \<Rightarrow> StepItem" where
  "stepItem_of oid = \<lparr>si_ItemID = oid, si_Amount = 1, si_Unit = ''g'', si_Item = zero_Item\<rparr>"

definition step_of :: "StepItem list \<Rightarrow> Step" where
  "step_of sis = \<lparr>step_Description = ''mix'', step_Items = sis, step_ImgUrl = [],
                  step_Duration = 5, step_Additional = None\<rparr>"

definition recipe_of :: "ObjectID \<Rightarrow> Step list \<Rightarrow> Recipe" where
  "recipe_of oid steps = \<lparr>recipe_ID = oid, recipe_Name = ''Bread'', recipe_Author = ''jm'',
     recipe_Description = ''plain'', recipe_Items = [], recipe_Steps = steps,
     recipe_Props = zero_Props, recipe_Deleted = False\<rparr>"

definition bread :: Recipe where
  "bread = recipe_of 10 [step_of [stepItem_of 24, stepItem_of 99]]"

definition pantry :: "unit RecipeTS" where
  "pantry = \<lparr>computed_itemsById = [''i1'' \<mapsto> ()]\<rparr>"

definition no_inherited :: "string \<Rightarrow> bool" where
  "no_inherited i = False"

text \<open>
  Modelled from the spec: \<open>LogError\<close>, \<open>GetAllItems\<close> and \<open>AddOrUpdateItem\<close>, which are
  defined elsewhere in the backend. By section 7 an error is surfaced to the caller, so
  \<open>LogError\<close> hands back the error it is given. By section 1 the store offers a
  full-collection scan, which is what \<open>GetAllItems\<close> returns, or the store's error. By
  section 4.3 an item that has an identifier is looked up by it at once; an item without
  one needs a name, reuses the stored item of that name if there is one, and is created
  otherwise. These three are used for the concrete examples only.
\<close>

definition spec_LogError :: "string \<Rightarrow> error \<Rightarrow> error" where
  "spec_LogError label err = err"

definition spec_GetAllItems :: "world \<Rightarrow> (Item list \<times> error option) \<times> world" where
  "spec_GetAllItems w =
     (case store_call w of
        (Some err, w1) \<Rightarrow> (([], Some err), w1)
      | (None, w1) \<Rightarrow> ((items_coll w1, None), w1))"

definition spec_AddOrUpdateItem :: "Item \<Rightarrow> world \<Rightarrow> (ObjectID \<times> error option) outcome \<times> world" where
  "spec_AddOrUpdateItem item w =
     (if \<not> IsZero (item_ID item) then (Returned (item_ID item, None), w)
      else if item_Name item = [] then (Returned (0, Some (Error ''item lacks a name'')), w)
      else
        (case find (\<lambda>i. item_Name i = item_Name item) (items_coll w) of
           Some known \<Rightarrow> (Returned (item_ID known, None), w)
         | None \<Rightarrow>
             (case store_call w of
                (Some err, w1) \<Rightarrow> (Returned (0, Some err), w1)
              | (None, w1) \<Rightarrow>
                  (let objectId = fresh_id (map item_ID (items_coll w1))
                   in (Returned (objectId, None),
                       w1\<lparr>items_coll := items_coll w1 @ [item\<lparr>item_ID := objectId\<rparr>]\<rparr>)))))"

definition pasta :: "string \<Rightarrow> string \<Rightarrow> Discount" where
  "pasta market price = \<lparr>disc_ID = 0, disc_Title = ''3-for-2 Pasta'', disc_Price = price,
     disc_ImageUrl = ''pasta.png'', disc_ValidUntil = 1700000000, disc_MarketName = ''Edeka'',
     disc_InternalMarketID = market, disc_Tags = []\<rparr>"

definition milk :: Discount where
  "milk = \<lparr>disc_ID = 3, disc_Title = ''Milk'', disc_Price = ''0.99'', disc_ImageUrl = [],
     disc_ValidUntil = 1700000000, disc_MarketName = ''Rewe'', disc_InternalMarketID = ''M2'',
     disc_Tags = []\<rparr>"

definition market :: "string \<Rightarrow> string \<Rightarrow> Market" where
  "market ident distributor =
     \<lparr>market_ID = ident, market_City = ''Konstanz'', market_Distributor = distributor\<rparr>"

definition demo_env :: env where
  "demo_env = \<lparr>LogError = spec_LogError, GetItemQuality = spec_GetItemQuality,
     GetAllItems = spec_GetAllItems, AddOrUpdateItem = spec_AddOrUpdateItem,
     GetAllMarketIDsByCity = (\<lambda>city. if city = ''Konstanz'' then [''M1'', ''M2''] else []),
     GetMarketsByCity = (\<lambda>city. if city = ''Konstanz''
        then ([market ''M1'' ''edeka'', market ''M2'' ''rewe'', market ''M3'' ''edeka'',
               market ''M4'' ''aldi''], None)
        else ([], None)),
     GetEdekaDiscounts = (\<lambda>m. ([pasta (market_ID m) ''1.99''], None)),
     GetReweDiscounts = (\<lambda>m. ([], Some (Error ''timeout'')))\<rparr>"

definition empty_world :: world where
  "empty_world = \<lparr>recipes_coll = [], items_coll = [], discounts_coll = [], faults = [], now = 0\<rparr>"

definition shelf :: world where
  "shelf = empty_world\<lparr>discounts_coll :=
     [(pasta ''M1'' ''1.99'')\<lparr>disc_ID := 5\<rparr>, (pasta ''M2'' ''1.79'')\<lparr>disc_ID := 6\<rparr>, milk,
      (pasta ''B7'' ''2.19'')\<lparr>disc_ID := 8\<rparr>]\<rparr>"

definition first_delivery :: "Discount list" where
  "first_delivery = [pasta ''M1'' ''1.89'', pasta ''M9'' ''1.99'', pasta ''M7'' ''2.49'']"

definition second_delivery :: "Discount list" where
  "second_delivery = [pasta ''M9'' ''1.49'', pasta ''M1'' ''1.59'']"

definition kitchen :: world where
  "kitchen = empty_world\<lparr>items_coll := [flour_A, flour_B, salt],
     recipes_coll := [recipe_of 11 [step_of [stepItem_of 24]], recipe_of 10 [step_of [stepItem_of 21]]]\<rparr>"

text \<open>
  The kitchen with a store whose fifth call fails (the write of the first recipe), and
  the kitchen as a pass without failure leaves it.
\<close>

definition kitchen_faulty :: world where
  "kitchen_faulty = kitchen\<lparr>faults := [None, None, None, None, Some (Error ''write failed'')]\<rparr>"

definition kitchen_clean :: world where
  "kitchen_clean = kitchen\<lparr>recipes_coll :=
     [recipe_of 11 [step_of [stepItem_of 24]], recipe_of 10 [step_of [stepItem_of 22]]]\<rparr>"

section \<open>Properties of hydration\<close>

lemma find_snoc:
  "find P (xs @ [x]) = (case find P xs of None \<Rightarrow> (if P x then Some x else None) | Some y \<Rightarrow> Some y)"
  by (induction xs) simp_all

lemma find_SomeD: "find P xs = Some x \<Longrightarrow> x \<in> set xs \<and> P x"
  by (induction xs) (auto split: if_splits)

lemma itemsMap_of_fold:
  "fold (\<lambda>it m. m(item_ID it \<mapsto> it)) items m0 k =
     (case find (\<lambda>it. item_ID it = k) (rev items) of None \<Rightarrow> m0 k | Some it \<Rightarrow> Some it)"
proof (induction items arbitrary: m0)
  case Nil
  show ?case by simp
next
  case (Cons a items)
  have "fold (\<lambda>it m. m(item_ID it \<mapsto> it)) (a # items) m0 k =
        fold (\<lambda>it m. m(item_ID it \<mapsto> it)) items (m0(item_ID a \<mapsto> a)) k"
    by simp
  also have "\<dots> = (case find (\<lambda>it. item_ID it = k) (rev items) of
                      None \<Rightarrow> (m0(item_ID a \<mapsto> a)) k | Some it \<Rightarrow> Some it)"
    by (rule Cons.IH)
  also have "\<dots> = (case find (\<lambda>it. item_ID it = k) (rev (a # items)) of
                      None \<Rightarrow> m0 k | Some it \<Rightarrow> Some it)"
    by (simp add: find_snoc split: option.split)
  finally show ?case .
qed

lemma itemsMap_of_find:
  "itemsMap_of items k = find (\<lambda>it. item_ID it = k) (rev items)"
  by (simp add: itemsMap_of_def itemsMap_of_fold split: option.split)

lemma index_items_found:
  "\<exists>it \<in> set items. item_ID it = k \<Longrightarrow>
   index_items (itemsMap_of items) k \<in> set items \<and>
   item_ID (index_items (itemsMap_of items) k) = k"
proof -
  assume "\<exists>it \<in> set items. item_ID it = k"
  then have "find (\<lambda>it. item_ID it = k) (rev items) \<noteq> None"
    by (auto simp: find_None_iff)
  then obtain it where f: "find (\<lambda>it. item_ID it = k) (rev items) = Some it"
    by blast
  then have "it \<in> set items \<and> item_ID it = k"
    using find_SomeD [OF f] by simp
  with f show ?thesis
    by (simp add: index_items_def itemsMap_of_find)
qed

lemma index_items_missing:
  "\<forall>it \<in> set items. item_ID it \<noteq> k \<Longrightarrow> index_items (itemsMap_of items) k = zero_Item"
  by (simp add: index_items_def itemsMap_of_find find_None_iff[THEN iffD2])

text \<open>
  Claim C9. Hydration never fails: \<open>MapItemIdsToItem\<close> keeps the number of steps and of
  step items and every field of a step item but \<open>Item\<close>; a step item whose \<open>ItemID\<close>
  matches no item of the collection gets the zero item, and every other step item gets
  an item of the collection that carries its \<open>ItemID\<close> (the last such item of the
  collection).
\<close>

theorem MapItemIdsToItem_dangling:
  fixes recipe :: Recipe and items :: "Item list"
  defines "out \<equiv> MapItemIdsToItem recipe items"
  shows "length (recipe_Steps out) = length (recipe_Steps recipe) \<and>
    (\<forall>i < length (recipe_Steps recipe).
       length (step_Items (recipe_Steps out ! i)) = length (step_Items (recipe_Steps recipe ! i)) \<and>
       (\<forall>j < length (step_Items (recipe_Steps recipe ! i)).
          let old = step_Items (recipe_Steps recipe ! i) ! j;
              new = step_Items (recipe_Steps out ! i) ! j
          in new = old\<lparr>si_Item := si_Item new\<rparr> \<and>
             si_Item new =
               (case find (\<lambda>it. item_ID it = si_ItemID old) (rev items) of
                  None \<Rightarrow> zero_Item | Some it \<Rightarrow> it) \<and>
             ((\<forall>it \<in> set items. item_ID it \<noteq> si_ItemID old) \<longrightarrow> si_Item new = zero_Item) \<and>
             ((\<exists>it \<in> set items. item_ID it = si_ItemID old) \<longrightarrow>
                si_Item new \<in> set items \<and> item_ID (si_Item new) = si_ItemID old)))"
  unfolding out_def MapItemIdsToItem_def
  by (simp add: hydrate_Step_def hydrate_StepItem_def Let_def index_items_missing
      index_items_found) (simp add: index_items_def itemsMap_of_find)

theorem MapItemIdsToItem_dangling_witness:
  "si_Item (step_Items (recipe_Steps (MapItemIdsToItem bread [flour_A, salt]) ! 0) ! 0) = salt \<and>
   si_Item (step_Items (recipe_Steps (MapItemIdsToItem bread [flour_A, salt]) ! 0) ! 1) = zero_Item \<and>
   length (step_Items (recipe_Steps (MapItemIdsToItem bread [flour_A, salt]) ! 0)) = 2"
proof -
  have steps: "recipe_Steps bread = [step_of [stepItem_of 24, stepItem_of 99]]"
    by (simp add: bread_def recipe_of_def)
  have sis: "step_Items (step_of [stepItem_of 24, stepItem_of 99]) = [stepItem_of 24, stepItem_of 99]"
    by (simp add: step_of_def)
  have ids: "si_ItemID (stepItem_of 24) = 24" "si_ItemID (stepItem_of 99) = 99"
    "item_ID flour_A = 21" "item_ID salt = 24"
    by (simp_all add: stepItem_of_def flour_A_def salt_def)
  note t = MapItemIdsToItem_dangling [of bread "[flour_A, salt]", THEN conjunct2, rule_format, of 0]
  have i0: "0 < length (recipe_Steps bread)" by (simp add: steps)
  have j0: "0 < length (step_Items (recipe_Steps bread ! 0))"
    and j1: "1 < length (step_Items (recipe_Steps bread ! 0))"
    by (simp_all add: steps sis)
  from t [OF i0, THEN conjunct2, rule_format, OF j0]
  have a: "si_Item (step_Items (recipe_Steps (MapItemIdsToItem bread [flour_A, salt]) ! 0) ! 0) = salt"
    by (simp add: Let_def steps sis ids)
  from t [OF i0, THEN conjunct2, rule_format, OF j1]
  have b: "si_Item (step_Items (recipe_Steps (MapItemIdsToItem bread [flour_A, salt]) ! 0) ! 1) = zero_Item"
    by (simp add: Let_def steps sis ids)
  from t [OF i0, THEN conjunct1]
  have c: "length (step_Items (recipe_Steps (MapItemIdsToItem bread [flour_A, salt]) ! 0)) = 2"
    by (simp add: steps sis)
  from a b c show ?thesis by simp
qed

section \<open>Properties of the choice of the best item\<close>

lemma best_itemMap_snoc:
  "best_itemMap q (items @ [x]) = best_step q x (best_itemMap q items)"
  by (simp add: best_itemMap_def)

lemma first_best_snoc_other:
  "first_best q items n it \<Longrightarrow> item_Name x \<noteq> n \<Longrightarrow> first_best q (items @ [x]) n it"
  unfolding first_best_def
  apply (elim exE conjE)
  subgoal for pre post
    by (rule exI[of _ pre], rule exI[of _ "post @ [x]"]) auto
  done

lemma first_best_snoc_keep:
  "first_best q items n it \<Longrightarrow> q x \<le> q it \<Longrightarrow> first_best q (items @ [x]) n it"
  unfolding first_best_def
  apply (elim exE conjE)
  subgoal for pre post
    by (rule exI[of _ pre], rule exI[of _ "post @ [x]"]) auto
  done

lemma first_best_snoc_replace:
  "first_best q items n it \<Longrightarrow> q it < q x \<Longrightarrow> item_Name x = n \<Longrightarrow>
   first_best q (items @ [x]) n x"
  unfolding first_best_def
  apply (elim exE conjE)
  subgoal for pre post
    by (rule exI[of _ items], rule exI[of _ "[]"]) force
  done

lemma first_best_snoc_new:
  "n \<notin> item_Name ` set items \<Longrightarrow> item_Name x = n \<Longrightarrow> first_best q (items @ [x]) n x"
proof -
  assume a: "n \<notin> item_Name ` set items" and b: "item_Name x = n"
  from a have "\<forall>j \<in> set items. item_Name j \<noteq> n" by auto
  with b have "items @ [x] = items @ x # [] \<and> item_Name x = n \<and>
        (\<forall>j \<in> set items. item_Name j = n \<longrightarrow> q j < q x) \<and>
        (\<forall>j \<in> set []. item_Name j = n \<longrightarrow> q j \<le> q x)"
    by simp
  then show ?thesis unfolding first_best_def by blast
qed

lemma best_itemMap_char:
  "(case best_itemMap q items n of
      None \<Rightarrow> n \<notin> item_Name ` set items
    | Some it \<Rightarrow> first_best q items n it)"
proof (induction items rule: rev_induct)
  case Nil
  show ?case by (simp add: best_itemMap_def)
next
  case (snoc x xs)
  show ?case
  proof (cases "item_Name x = n")
    case False
    with snoc show ?thesis
      by (auto simp: best_itemMap_snoc best_step_def first_best_snoc_other
          split: option.splits)
  next
    case True
    with snoc show ?thesis
      by (auto simp: best_itemMap_snoc best_step_def first_best_snoc_keep
          first_best_snoc_replace first_best_snoc_new split: option.splits)
  qed
qed

lemma first_best_in_bucket: "first_best q items n it \<Longrightarrow> it \<in> set items \<and> item_Name it = n"
  unfolding first_best_def by auto

lemma best_itemMap_None_iff:
  "best_itemMap q items n = None \<longleftrightarrow> n \<notin> item_Name ` set items"
  using best_itemMap_char [where q=q and items=items and n=n] first_best_in_bucket [of q items n]
  by (cases "best_itemMap q items n") auto

lemma best_itemMap_Some:
  "best_itemMap q items n = Some it \<Longrightarrow> first_best q items n it"
  using best_itemMap_char [where q=q and items=items and n=n] by simp

lemma best_itemMap_strict:
  assumes "it \<in> set items"
    and "\<forall>j \<in> set items. item_Name j = item_Name it \<and> j \<noteq> it \<longrightarrow> q j < q it"
  shows "best_itemMap q items (item_Name it) = Some it"
proof (cases "best_itemMap q items (item_Name it)")
  case None
  with best_itemMap_None_iff [of q items "item_Name it"] assms(1) show ?thesis
    by auto
next
  case (Some b)
  then have "first_best q items (item_Name it) b" by (rule best_itemMap_Some)
  then obtain pre post where d: "items = pre @ b # post" "item_Name b = item_Name it"
    "\<forall>j \<in> set pre. item_Name j = item_Name it \<longrightarrow> q j < q b"
    "\<forall>j \<in> set post. item_Name j = item_Name it \<longrightarrow> q j \<le> q b"
    unfolding first_best_def by blast
  have "b = it"
  proof (rule ccontr)
    assume ne: "b \<noteq> it"
    from d(1) have "b \<in> set items" by simp
    with assms(2) d(2) ne have lt: "q b < q it" by blast
    from assms(1) d(1) ne have "it \<in> set pre \<or> it \<in> set post" by auto
    with d(3,4) have "q it \<le> q b" by force
    with lt show False by simp
  qed
  with Some show ?thesis by simp
qed

text \<open>
  Claim C3. For every name \<open>n\<close> the map built by the first loop of
  \<open>CleanUpItemsInRecipes\<close> has an entry exactly when some item carries that name. The
  entry is an item \<open>it\<close> of the bucket such that every item of the bucket met before it
  scores strictly less and every item met after it scores at most as much: the first
  item of the highest score. An item that scores strictly more than every other item of
  its bucket is chosen in every order of iteration.
\<close>

theorem best_itemMap_canonical:
  "(best_itemMap q items n = None \<longleftrightarrow> n \<notin> item_Name ` set items) \<and>
   (\<forall>it. best_itemMap q items n = Some it \<longrightarrow>
      (\<exists>pre post. items = pre @ it # post \<and> item_Name it = n \<and>
         (\<forall>j \<in> set pre. item_Name j = n \<longrightarrow> q j < q it) \<and>
         (\<forall>j \<in> set post. item_Name j = n \<longrightarrow> q j \<le> q it))) \<and>
   (\<forall>it items'. mset items' = mset items \<and> it \<in> set items \<and> item_Name it = n \<and>
      (\<forall>j \<in> set items. item_Name j = n \<and> j \<noteq> it \<longrightarrow> q j < q it) \<longrightarrow>
      best_itemMap q items' n = Some it)"
proof (intro conjI allI impI)
  show "best_itemMap q items n = None \<longleftrightarrow> n \<notin> item_Name ` set items"
    by (rule best_itemMap_None_iff)
next
  fix it assume "best_itemMap q items n = Some it"
  then have "first_best q items n it" by (rule best_itemMap_Some)
  then show "\<exists>pre post. items = pre @ it # post \<and> item_Name it = n \<and>
         (\<forall>j \<in> set pre. item_Name j = n \<longrightarrow> q j < q it) \<and>
         (\<forall>j \<in> set post. item_Name j = n \<longrightarrow> q j \<le> q it)"
    unfolding first_best_def .
next
  fix it items'
  assume a: "mset items' = mset items \<and> it \<in> set items \<and> item_Name it = n \<and>
      (\<forall>j \<in> set items. item_Name j = n \<and> j \<noteq> it \<longrightarrow> q j < q it)"
  then have s: "set items' = set items" by (metis set_mset_mset)
  with a have "it \<in> set items'"
    and "\<forall>j \<in> set items'. item_Name j = item_Name it \<and> j \<noteq> it \<longrightarrow> q j < q it"
    by auto
  then have "best_itemMap q items' (item_Name it) = Some it" by (rule best_itemMap_strict)
  with a show "best_itemMap q items' n = Some it" by simp
qed

theorem best_itemMap_canonical_witness:
  "best_itemMap spec_GetItemQuality [flour_B, salt, flour_A] ''Flour'' = Some flour_B \<and>
   best_itemMap spec_GetItemQuality [flour_A, salt, flour_B] ''Flour'' = Some flour_B \<and>
   best_itemMap spec_GetItemQuality [flour_A, flour_C, salt] ''Flour'' = Some flour_A \<and>
   best_itemMap spec_GetItemQuality [flour_C, flour_A, salt] ''Flour'' = Some flour_C \<and>
   best_itemMap spec_GetItemQuality [flour_C, flour_A, salt] ''Sugar'' = None"
proof -
  have q: "spec_GetItemQuality flour_A = 1" "spec_GetItemQuality flour_B = 2" "spec_GetItemQuality flour_C = 1"
    "spec_GetItemQuality salt = 0"
    by (simp_all add: spec_GetItemQuality_def flour_A_def flour_B_def flour_C_def salt_def)
  have ne: "flour_A \<noteq> flour_B" "flour_A \<noteq> flour_C" "flour_B \<noteq> salt" "flour_A \<noteq> salt"
    "flour_C \<noteq> salt"
    by (simp_all add: flour_A_def flour_B_def flour_C_def salt_def)
  have nm: "item_Name flour_A = ''Flour''" "item_Name flour_B = ''Flour''"
    "item_Name flour_C = ''Flour''" "item_Name salt = ''Salt''"
    by (simp_all add: flour_A_def flour_B_def flour_C_def salt_def)
  note t = best_itemMap_canonical [of spec_GetItemQuality "[flour_B, salt, flour_A]" "''Flour''"]
  have 1: "best_itemMap spec_GetItemQuality [flour_B, salt, flour_A] ''Flour'' = Some flour_B"
    using t [THEN conjunct2, THEN conjunct2, rule_format, of "[flour_B, salt, flour_A]" flour_B]
    by (simp add: q nm)
  have 2: "best_itemMap spec_GetItemQuality [flour_A, salt, flour_B] ''Flour'' = Some flour_B"
    using t [THEN conjunct2, THEN conjunct2, rule_format, of "[flour_A, salt, flour_B]" flour_B]
    by (simp add: q nm)
  have 3: "best_itemMap spec_GetItemQuality [flour_A, flour_C, salt] ''Flour'' = Some flour_A"
    by (simp add: best_itemMap_def best_step_def q nm)
  have 4: "best_itemMap spec_GetItemQuality [flour_C, flour_A, salt] ''Flour'' = Some flour_C"
    by (simp add: best_itemMap_def best_step_def q nm)
  have 5: "best_itemMap spec_GetItemQuality [flour_C, flour_A, salt] ''Sugar'' = None"
    using best_itemMap_canonical [of spec_GetItemQuality "[flour_C, flour_A, salt]" "''Sugar''"]
    by (simp add: nm)
  from 1 2 3 4 5 show ?thesis by simp
qed

section \<open>Properties of the suggestion filter\<close>

text \<open>
  Claim C10. An item query entry whose \<open>exclude\<close> is undefined holds for every recipe,
  whether the recipe has the item or not, and it imposes no constraint on the filter:
  \<open>filterRecipeByItems\<close> gives the same answer with the entry as without it.
\<close>

theorem filterRecipeByItems_undefined_exclude:
  assumes "iq_exclude itemQ = None"
  shows "itemQ_holds inherited recipe itemQ \<and>
         filterRecipeByItems inherited recipe (pre @ itemQ # post) =
         filterRecipeByItems inherited recipe (pre @ post)"
  using assms by (simp add: itemQ_holds_def filterRecipeByItems_def Let_def)

theorem filterRecipeByItems_undefined_exclude_witness:
  "itemQ_holds no_inherited pantry \<lparr>iq_id = Some ''i1'', iq_exclude = None\<rparr> \<and>
   itemQ_holds no_inherited pantry \<lparr>iq_id = Some ''i2'', iq_exclude = None\<rparr> \<and>
   filterRecipeByItems no_inherited pantry
     [\<lparr>iq_id = Some ''i1'', iq_exclude = Some False\<rparr>, \<lparr>iq_id = Some ''i2'', iq_exclude = None\<rparr>]"
proof -
  have a: "iq_exclude \<lparr>iq_id = Some ''i1'', iq_exclude = None\<rparr> = None"
    and b: "iq_exclude \<lparr>iq_id = Some ''i2'', iq_exclude = None\<rparr> = None"
    by simp_all
  have c: "filterRecipeByItems no_inherited pantry [\<lparr>iq_id = Some ''i1'', iq_exclude = Some False\<rparr>]"
    by (simp add: filterRecipeByItems_def itemQ_holds_def hasItem_def pantry_def)
  show ?thesis
    using filterRecipeByItems_undefined_exclude [OF a, of no_inherited pantry "[]" "[]"]
      filterRecipeByItems_undefined_exclude [OF b, of no_inherited pantry
        "[\<lparr>iq_id = Some ''i1'', iq_exclude = Some False\<rparr>]" "[]"] c
    by simp
qed

section \<open>Properties of the discount functions\<close>

lemma fetch_markets_concat:
  "fetch_markets e markets discounts =
     discounts @ concat (map (\<lambda>m. case GetDiscountsFromAPI e m of
                                      (ds, None) \<Rightarrow> ds | (ds, Some err) \<Rightarrow> []) markets)"
  by (induction markets arbitrary: discounts) (auto split: prod.splits option.splits)

text \<open>
  Claim C7. When the markets of the city are resolved, \<open>GetDiscountsByCityFromAPI\<close>
  returns the discounts of all markets whose fetch succeeds, in the order of the markets;
  a market whose fetch fails contributes nothing and stops nothing. So the discounts of
  every market that is fetched successfully are part of the result, whatever happens at
  the other markets.
\<close>

theorem GetDiscountsByCityFromAPI_isolation:
  assumes "GetMarketsByCity e city = (markets, None)"
  shows "GetDiscountsByCityFromAPI e city =
           concat (map (\<lambda>m. case GetDiscountsFromAPI e m of
                               (ds, None) \<Rightarrow> ds | (ds, Some err) \<Rightarrow> []) markets) \<and>
         (\<forall>m ds. m \<in> set markets \<and> GetDiscountsFromAPI e m = (ds, None) \<longrightarrow>
            (\<exists>before after. GetDiscountsByCityFromAPI e city = before @ ds @ after))"
proof (intro conjI allI impI)
  let ?ok = "\<lambda>m. case GetDiscountsFromAPI e m of (ds, None) \<Rightarrow> ds | (ds, Some err) \<Rightarrow> []"
  show eq: "GetDiscountsByCityFromAPI e city = concat (map ?ok markets)"
    using assms by (simp add: GetDiscountsByCityFromAPI_def fetch_markets_concat)
  fix m ds
  assume a: "m \<in> set markets \<and> GetDiscountsFromAPI e m = (ds, None)"
  then obtain pre post where sp: "markets = pre @ m # post"
    by (auto simp: in_set_conv_decomp)
  from a have "?ok m = ds" by simp
  with sp have "concat (map ?ok markets) = concat (map ?ok pre) @ ds @ concat (map ?ok post)"
    by simp
  with eq show "\<exists>before after. GetDiscountsByCityFromAPI e city = before @ ds @ after"
    by metis
qed

lemma store_call_colls [simp]:
  "discounts_coll (snd (store_call w)) = discounts_coll w"
  "recipes_coll (snd (store_call w)) = recipes_coll w"
  "items_coll (snd (store_call w)) = items_coll w"
  "now (snd (store_call w)) = now w"
  by (simp_all add: store_call_def split: list.splits)

text \<open>
  Claim C8, as amended. \<open>GetDiscountsByCity\<close> returns the error
  \<open>No markets found for <city>\<close> with an empty list, and leaves the store alone, when no
  market id is resolved for the city. When market ids are resolved, it returns an error
  exactly when the query to the store or the decoding of its result fails. Whenever it
  returns an error, the list it returns is empty.
\<close>

theorem GetDiscountsByCity_errors:
  fixes e iter city w
  defines "R \<equiv> GetDiscountsByCity e iter city w"
  shows "(GetAllMarketIDsByCity e city = [] \<longrightarrow>
            R = (([], Some (errors_New (''No markets found for '' @ city))), w)) \<and>
         (GetAllMarketIDsByCity e city \<noteq> [] \<longrightarrow>
            (snd (fst R) \<noteq> None \<longleftrightarrow>
               fst (store_call w) \<noteq> None \<or> fst (store_call (snd (store_call w))) \<noteq> None)) \<and>
         (snd (fst R) \<noteq> None \<longrightarrow> fst (fst R) = [])"
  unfolding R_def GetDiscountsByCity_def
  by (auto simp: Let_def split: prod.splits option.splits)

lemma discountsMap_of_snoc:
  "discountsMap_of (ds @ [d]) = discountsMap_put d (discountsMap_of ds)"
  by (simp add: discountsMap_of_def)

lemma first_titled_snoc: "first_titled ds r \<Longrightarrow> first_titled (ds @ [d]) r"
  unfolding first_titled_def
  apply (elim exE conjE)
  subgoal for pre post
    by (rule exI[of _ pre], rule exI[of _ "post @ [d]"]) simp
  done

lemma first_titled_new: "disc_Title d \<notin> disc_Title ` set ds \<Longrightarrow> first_titled (ds @ [d]) d"
  unfolding first_titled_def
  by (rule exI[of _ ds], rule exI[of _ "[]"]) simp

lemma discountsMap_of_inv:
  "distinct (map fst (discountsMap_of ds)) \<and>
   fst ` set (discountsMap_of ds) = disc_Title ` set ds \<and>
   (\<forall>(k, r) \<in> set (discountsMap_of ds). k = disc_Title r \<and> first_titled ds r)"
proof (induction ds rule: rev_induct)
  case Nil
  show ?case by (simp add: discountsMap_of_def)
next
  case (snoc d ds)
  show ?case
  proof (cases "map_of (discountsMap_of ds) (disc_Title d) = None")
    case True
    then have new: "disc_Title d \<notin> fst ` set (discountsMap_of ds)"
      by (simp add: map_of_eq_None_iff)
    with snoc have "disc_Title d \<notin> disc_Title ` set ds" by simp
    then have "first_titled (ds @ [d]) d" by (rule first_titled_new)
    with snoc new True show ?thesis
      by (auto simp: discountsMap_of_snoc discountsMap_put_def first_titled_snoc)
  next
    case False
    then have "disc_Title d \<in> fst ` set (discountsMap_of ds)"
      by (simp add: map_of_eq_None_iff)
    with snoc False show ?thesis
      by (auto simp: discountsMap_of_snoc discountsMap_put_def first_titled_snoc)
  qed
qed

text \<open>
  Claim C6. When \<open>GetDiscountsByCity\<close> succeeds, no two discounts of its result share a
  title, every title among the stored discounts of the city's markets occurs in the
  result, each discount of the result is the first of its title among those stored
  discounts, and the collection in the store is as it was.
\<close>

theorem GetDiscountsByCity_dedup:
  assumes iter: "\<forall>al. mset (iter al) = mset al"
    and ok: "GetDiscountsByCity e iter city w = ((res, None), w')"
  shows "distinct (map disc_Title res) \<and>
         disc_Title ` set res =
           disc_Title ` set (Find_discounts_in (GetAllMarketIDsByCity e city) w) \<and>
         (\<forall>r \<in> set res. \<exists>pre post.
            Find_discounts_in (GetAllMarketIDsByCity e city) w = pre @ r # post \<and>
            disc_Title r \<notin> disc_Title ` set pre) \<and>
         discounts_coll w' = discounts_coll w"
proof -
  let ?ds = "Find_discounts_in (GetAllMarketIDsByCity e city) w"
  let ?al = "discountsMap_of ?ds"
  have F: "\<And>v. discounts_coll v = discounts_coll w \<Longrightarrow>
             Find_discounts_in (GetAllMarketIDsByCity e city) v = ?ds"
    by (simp add: Find_discounts_in_def)
  from ok have res: "res = map snd (iter ?al)" and w': "discounts_coll w' = discounts_coll w"
    by (auto simp: GetDiscountsByCity_def Let_def Find_discounts_in_def
        split: if_splits prod.splits option.splits
        dest!: arg_cong[where f=snd and x="store_call _"])
  have inv: "distinct (map fst ?al)" "fst ` set ?al = disc_Title ` set ?ds"
    "\<forall>(k, r) \<in> set ?al. k = disc_Title r \<and> first_titled ?ds r"
    using discountsMap_of_inv [of ?ds] by simp_all
  from iter have ms: "mset (iter ?al) = mset ?al" by simp
  then have st: "set (iter ?al) = set ?al" by (rule mset_eq_setD)
  have titles: "map disc_Title res = map fst (iter ?al)"
    unfolding res using inv(3) st by auto
  from ms have "mset (map fst (iter ?al)) = mset (map fst ?al)" by simp
  then have "distinct (map fst (iter ?al)) \<longleftrightarrow> distinct (map fst ?al)"
    by (rule mset_eq_imp_distinct_iff)
  with inv(1) titles have d: "distinct (map disc_Title res)" by simp
  from titles have "disc_Title ` set res = fst ` set (iter ?al)"
    by (metis list.set_map)
  with st inv(2) have t: "disc_Title ` set res = disc_Title ` set ?ds" by simp
  have f: "\<forall>r \<in> set res. \<exists>pre post. ?ds = pre @ r # post \<and> disc_Title r \<notin> disc_Title ` set pre"
  proof
    fix r assume "r \<in> set res"
    then obtain k where "(k, r) \<in> set ?al" unfolding res using st by auto
    with inv(3) have "first_titled ?ds r" by auto
    then show "\<exists>pre post. ?ds = pre @ r # post \<and> disc_Title r \<notin> disc_Title ` set pre"
      unfolding first_titled_def .
  qed
  from d t f w' show ?thesis by simp
qed

lemma same_key_cong: "same_key a b \<Longrightarrow> same_key a = same_key b"
  by (auto simp: same_key_def fun_eq_iff)

lemma find_None_filter: "find P xs = None \<longleftrightarrow> filter P xs = []"
  by (induction xs) auto

lemma find_Some_filter: "find P xs = Some y \<Longrightarrow> \<exists>ys. filter P xs = y # ys"
  by (induction xs) (auto split: if_splits)

lemma filter_update_first:
  "(\<And>x. P x \<Longrightarrow> P (f x)) \<Longrightarrow>
   filter P (update_first P f xs) = (case filter P xs of [] \<Rightarrow> [] | y # ys \<Rightarrow> f y # ys)"
  by (induction xs) auto

lemma same_key_set_discount: "same_key d y \<Longrightarrow> same_key d (set_discount d y)"
  by (auto simp: same_key_def set_discount_def)

lemma set_discount_fields: "same_key d y \<Longrightarrow> set_discount d y = d\<lparr>disc_ID := disc_ID y\<rparr>"
  by (auto simp: same_key_def set_discount_def)

lemma upsert_filter:
  assumes "UpdateOne_discount_upsert d w = (None, w1)"
  shows "\<exists>r. filter (same_key d) (discounts_coll w1) =
               r # tl (filter (same_key d) (discounts_coll w)) \<and>
             r = d\<lparr>disc_ID := disc_ID r\<rparr>"
proof -
  obtain r0 v where sc: "store_call w = (r0, v)" by (cases "store_call w")
  then have cv: "discounts_coll v = discounts_coll w"
    using store_call_colls(1) [of w] by simp
  from assms sc have r0: "r0 = None"
    by (auto simp: UpdateOne_discount_upsert_def split: option.splits)
  have sk: "same_key d d" by (simp add: same_key_def)
  show ?thesis
  proof (cases "find (same_key d) (discounts_coll w)")
    case None
    then have f: "filter (same_key d) (discounts_coll w) = []"
      by (simp add: find_None_filter)
    from assms sc r0 None cv
    have "\<exists>i. discounts_coll w1 = discounts_coll w @ [d\<lparr>disc_ID := i\<rparr>]"
      by (auto simp: UpdateOne_discount_upsert_def split: if_splits intro: exI[of _ "disc_ID d"])
    then obtain i where "discounts_coll w1 = discounts_coll w @ [d\<lparr>disc_ID := i\<rparr>]" ..
    with f sk show ?thesis by (simp add: same_key_def)
  next
    case (Some y)
    then obtain ys where f: "filter (same_key d) (discounts_coll w) = y # ys"
      using find_Some_filter by fastforce
    then have "y \<in> set (filter (same_key d) (discounts_coll w))" by simp
    then have ky: "same_key d y" by simp
    from assms sc r0 Some cv
    have "discounts_coll w1 = update_first (same_key d) (set_discount d) (discounts_coll w)"
      by (auto simp: UpdateOne_discount_upsert_def split: if_splits)
    then have "filter (same_key d) (discounts_coll w1) = set_discount d y # ys"
      using f by (simp add: filter_update_first same_key_set_discount)
    with f ky show ?thesis by (simp add: set_discount_fields)
  qed
qed

lemma AddDiscounts_single:
  "AddDiscounts e [d] w = (None, w1) \<Longrightarrow> UpdateOne_discount_upsert d w = (None, w1)"
  by (auto split: prod.splits option.splits)

text \<open>
  \<open>AddDiscounts\<close> keeps the keys unique: if no two stored discounts share a key before
  the call, none do after it, whether the call succeeds or stops at an error.
\<close>

lemma filter_update_first_other:
  "(\<And>x. P x \<Longrightarrow> \<not> Q x \<and> \<not> Q (f x)) \<Longrightarrow> filter Q (update_first P f xs) = filter Q xs"
  by (induction xs) auto

lemma upsert_failed:
  "UpdateOne_discount_upsert d w = (Some err, w1) \<Longrightarrow> discounts_coll w1 = discounts_coll w"
  by (auto simp: UpdateOne_discount_upsert_def split: prod.splits option.splits if_splits
      dest!: arg_cong [where f = snd and x = "store_call _"])

lemma upsert_other_key:
  assumes ok: "UpdateOne_discount_upsert d w = (None, w1)" and other: "\<not> same_key k d"
  shows "filter (same_key k) (discounts_coll w1) = filter (same_key k) (discounts_coll w)"
proof -
  obtain r0 v where sc: "store_call w = (r0, v)" by (cases "store_call w")
  then have cv: "discounts_coll v = discounts_coll w"
    using store_call_colls(1) [of w] by simp
  from ok sc have r0: "r0 = None"
    by (auto simp: UpdateOne_discount_upsert_def split: option.splits)
  show ?thesis
  proof (cases "find (same_key d) (discounts_coll w)")
    case None
    from ok sc r0 None cv
    have "\<exists>i. discounts_coll w1 = discounts_coll w @ [d\<lparr>disc_ID := i\<rparr>]"
      by (auto simp: UpdateOne_discount_upsert_def split: if_splits intro: exI[of _ "disc_ID d"])
    then obtain i where "discounts_coll w1 = discounts_coll w @ [d\<lparr>disc_ID := i\<rparr>]" ..
    with other show ?thesis by (simp add: same_key_def)
  next
    case (Some y)
    from ok sc r0 Some cv
    have c: "discounts_coll w1 = update_first (same_key d) (set_discount d) (discounts_coll w)"
      by (auto simp: UpdateOne_discount_upsert_def split: if_splits)
    have "\<And>x. same_key d x \<Longrightarrow> \<not> same_key k x \<and> \<not> same_key k (set_discount d x)"
      using other by (auto simp: same_key_def set_discount_def)
    then show ?thesis unfolding c by (rule filter_update_first_other)
  qed
qed

lemma upsert_keys_unique:
  assumes u: "\<forall>k. length (filter (same_key k) (discounts_coll w)) \<le> 1"
    and r: "UpdateOne_discount_upsert d w = (res, w1)"
  shows "\<forall>k. length (filter (same_key k) (discounts_coll w1)) \<le> 1"
proof (cases res)
  case (Some err)
  with r have "discounts_coll w1 = discounts_coll w" by (simp add: upsert_failed)
  with u show ?thesis by simp
next
  case None
  with r have ok: "UpdateOne_discount_upsert d w = (None, w1)" by simp
  show ?thesis
  proof
    fix k
    show "length (filter (same_key k) (discounts_coll w1)) \<le> 1"
    proof (cases "same_key k d")
      case True
      then have e: "same_key k = same_key d" by (rule same_key_cong)
      from u have "tl (filter (same_key d) (discounts_coll w)) = []"
        by (cases "filter (same_key d) (discounts_coll w)") (auto dest: spec [of _ d])
      with upsert_filter [OF ok] show ?thesis unfolding e by auto
    next
      case False
      with upsert_other_key [OF ok] u show ?thesis by simp
    qed
  qed
qed

lemma AddDiscounts_keys_unique:
  "\<forall>k. length (filter (same_key k) (discounts_coll w)) \<le> 1 \<Longrightarrow>
   AddDiscounts e ds w = (res, w1) \<Longrightarrow>
   \<forall>k. length (filter (same_key k) (discounts_coll w1)) \<le> 1"
proof (induction ds arbitrary: w)
  case Nil
  then show ?case by simp
next
  case (Cons d ds)
  obtain r v where up: "UpdateOne_discount_upsert d w = (r, v)"
    by (cases "UpdateOne_discount_upsert d w")
  from upsert_keys_unique [OF Cons.prems(1) up]
  have v: "\<forall>k. length (filter (same_key k) (discounts_coll v)) \<le> 1" .
  show ?case
  proof (cases r)
    case None
    with up Cons.prems(2) have "AddDiscounts e ds v = (res, w1)" by simp
    from Cons.IH [OF v this] show ?thesis .
  next
    case (Some err)
    with up Cons.prems(2) have "w1 = v" by simp
    with v show ?thesis by simp
  qed
qed

text \<open>
  A batch that is ingested in two calls is ingested as one: the loop of \<open>AddDiscounts\<close>
  goes on with the next discount from the store that the previous one left.
\<close>

lemma AddDiscounts_append:
  "AddDiscounts e (xs @ ys) w =
     (case AddDiscounts e xs w of
        (Some err, v) \<Rightarrow> (Some err, v)
      | (None, v) \<Rightarrow> AddDiscounts e ys v)"
  by (induction xs arbitrary: w) (auto split: prod.splits option.splits)

text \<open>
  What a successful call leaves in the store, key by key. For a key of the batch there is
  exactly one stored discount, and all its fields but the \<open>_id\<close> are those of the last
  discount of the batch with that key; the discounts of every other key are untouched.
\<close>

lemma AddDiscounts_batch:
  "\<forall>d \<in> set ds. length (filter (same_key d) (discounts_coll w)) \<le> 1 \<Longrightarrow>
   AddDiscounts e ds w = (None, w1) \<Longrightarrow>
   \<forall>k. if \<exists>d \<in> set ds. same_key k d
       then \<exists>r. filter (same_key k) (discounts_coll w1) = [r] \<and>
                r = (last (filter (same_key k) ds))\<lparr>disc_ID := disc_ID r\<rparr>
       else filter (same_key k) (discounts_coll w1) = filter (same_key k) (discounts_coll w)"
proof (induction ds arbitrary: w1 rule: rev_induct)
  case Nil
  then show ?case by simp
next
  case (snoc x ds)
  obtain r0 v where run: "AddDiscounts e ds w = (r0, v)" by (cases "AddDiscounts e ds w")
  with snoc.prems(2) have r0: "r0 = None" and last: "AddDiscounts e [x] v = (None, w1)"
    by (auto simp: AddDiscounts_append split: option.splits)
  from last have ok: "UpdateOne_discount_upsert x v = (None, w1)" by (rule AddDiscounts_single)
  from snoc.prems(1) have u: "\<forall>d \<in> set ds. length (filter (same_key d) (discounts_coll w)) \<le> 1"
    and ux: "length (filter (same_key x) (discounts_coll w)) \<le> 1" by simp_all
  from run r0 have "AddDiscounts e ds w = (None, v)" by simp
  from snoc.IH [OF u this]
  have ih: "\<And>k. if \<exists>d \<in> set ds. same_key k d
       then \<exists>r. filter (same_key k) (discounts_coll v) = [r] \<and>
                r = (last (filter (same_key k) ds))\<lparr>disc_ID := disc_ID r\<rparr>
       else filter (same_key k) (discounts_coll v) = filter (same_key k) (discounts_coll w)"
    by simp
  have tlx: "tl (filter (same_key x) (discounts_coll v)) = []"
  proof (cases "\<exists>d \<in> set ds. same_key x d")
    case True
    with ih [of x] show ?thesis by auto
  next
    case False
    with ih [of x] have "filter (same_key x) (discounts_coll v) = filter (same_key x) (discounts_coll w)"
      by simp
    with ux show ?thesis by (cases "filter (same_key x) (discounts_coll w)") auto
  qed
  show ?case
  proof
    fix k
    show "if \<exists>d \<in> set (ds @ [x]). same_key k d
       then \<exists>r. filter (same_key k) (discounts_coll w1) = [r] \<and>
                r = (last (filter (same_key k) (ds @ [x])))\<lparr>disc_ID := disc_ID r\<rparr>
       else filter (same_key k) (discounts_coll w1) = filter (same_key k) (discounts_coll w)"
    proof (cases "same_key k x")
      case True
      then have e: "same_key k = same_key x" by (rule same_key_cong)
      from upsert_filter [OF ok] tlx
      obtain r where "filter (same_key x) (discounts_coll w1) = [r]" "r = x\<lparr>disc_ID := disc_ID r\<rparr>"
        by auto
      with True show ?thesis unfolding e by auto
    next
      case False
      from upsert_other_key [OF ok False]
      have "filter (same_key k) (discounts_coll w1) = filter (same_key k) (discounts_coll v)" .
      with ih [of k] False show ?thesis by simp
    qed
  qed
qed

text \<open>
  Claim C5. Start from a store that holds at most one discount for each key (market,
  title) of the batches \<open>ds1\<close> and \<open>ds2\<close>, and ingest \<open>ds1\<close> and then \<open>ds2\<close> with
  \<open>AddDiscounts\<close>, both without error. Then for every discount of the second batch the
  store holds exactly one discount with its key, and all its fields but the \<open>_id\<close> that
  the store assigned are those of the second ingestion (of the last discount with that
  key in \<open>ds2\<close>, should the batch name the key more than once). A discount of the first
  batch whose key the second batch does not name is stored once as well, with the fields
  of the first ingestion, and the discounts of keys that neither batch names are as they
  were. In particular, ingesting \<open>[d]\<close> and then \<open>[d']\<close> of the same key leaves one record
  with the fields of \<open>d'\<close>, whether \<open>d\<close> was inserted or updated.
\<close>

theorem AddDiscounts_upsert_idempotent:
  assumes u: "\<forall>d \<in> set (ds1 @ ds2). length (filter (same_key d) (discounts_coll w)) \<le> 1"
    and r1: "AddDiscounts e ds1 w = (None, w1)"
    and r2: "AddDiscounts e ds2 w1 = (None, w2)"
  shows "(\<forall>d \<in> set ds2. \<exists>r. filter (same_key d) (discounts_coll w2) = [r] \<and>
            r = (last (filter (same_key d) ds2))\<lparr>disc_ID := disc_ID r\<rparr>) \<and>
         (\<forall>d \<in> set ds1. (\<forall>d2 \<in> set ds2. \<not> same_key d d2) \<longrightarrow>
            (\<exists>r. filter (same_key d) (discounts_coll w2) = [r] \<and>
               r = (last (filter (same_key d) ds1))\<lparr>disc_ID := disc_ID r\<rparr>)) \<and>
         (\<forall>k. (\<forall>d \<in> set (ds1 @ ds2). \<not> same_key k d) \<longrightarrow>
            filter (same_key k) (discounts_coll w2) = filter (same_key k) (discounts_coll w))"
proof -
  from r1 r2 have run: "AddDiscounts e (ds1 @ ds2) w = (None, w2)"
    by (simp add: AddDiscounts_append)
  note b = AddDiscounts_batch [OF u run, rule_format]
  have a: "\<forall>d \<in> set ds2. \<exists>r. filter (same_key d) (discounts_coll w2) = [r] \<and>
            r = (last (filter (same_key d) ds2))\<lparr>disc_ID := disc_ID r\<rparr>"
  proof
    fix d assume d: "d \<in> set ds2"
    have "same_key d d" by (simp add: same_key_def)
    with d have ne: "filter (same_key d) ds2 \<noteq> []" by (auto simp: filter_empty_conv)
    from d \<open>same_key d d\<close> have "\<exists>x \<in> set (ds1 @ ds2). same_key d x" by auto
    with b [of d] ne show "\<exists>r. filter (same_key d) (discounts_coll w2) = [r] \<and>
            r = (last (filter (same_key d) ds2))\<lparr>disc_ID := disc_ID r\<rparr>"
      by simp
  qed
  have c: "\<forall>d \<in> set ds1. (\<forall>d2 \<in> set ds2. \<not> same_key d d2) \<longrightarrow>
            (\<exists>r. filter (same_key d) (discounts_coll w2) = [r] \<and>
               r = (last (filter (same_key d) ds1))\<lparr>disc_ID := disc_ID r\<rparr>)"
  proof (intro ballI impI)
    fix d assume d: "d \<in> set ds1" and n: "\<forall>d2 \<in> set ds2. \<not> same_key d d2"
    have "same_key d d" by (simp add: same_key_def)
    with d have "\<exists>x \<in> set (ds1 @ ds2). same_key d x" by auto
    moreover from n have "filter (same_key d) ds2 = []" by (simp add: filter_empty_conv)
    ultimately show "\<exists>r. filter (same_key d) (discounts_coll w2) = [r] \<and>
               r = (last (filter (same_key d) ds1))\<lparr>disc_ID := disc_ID r\<rparr>"
      using b [of d] by simp
  qed
  have o: "\<forall>k. (\<forall>d \<in> set (ds1 @ ds2). \<not> same_key k d) \<longrightarrow>
            filter (same_key k) (discounts_coll w2) = filter (same_key k) (discounts_coll w)"
  proof (intro allI impI)
    fix k assume "\<forall>d \<in> set (ds1 @ ds2). \<not> same_key k d"
    then have "\<not> (\<exists>d \<in> set (ds1 @ ds2). same_key k d)" by blast
    with b [of k] show "filter (same_key k) (discounts_coll w2) = filter (same_key k) (discounts_coll w)"
      by simp
  qed
  from a c o show ?thesis by (intro conjI)
qed

lemma demo_env_simps [simp]:
  "LogError demo_env = spec_LogError"
  "GetAllMarketIDsByCity demo_env ''Konstanz'' = [''M1'', ''M2'']"
  "GetMarketsByCity demo_env ''Konstanz'' =
     ([market ''M1'' ''edeka'', market ''M2'' ''rewe'', market ''M3'' ''edeka'',
       market ''M4'' ''aldi''], None)"
  "GetEdekaDiscounts demo_env = (\<lambda>m. ([pasta (market_ID m) ''1.99''], None))"
  "GetReweDiscounts demo_env = (\<lambda>m. ([], Some (Error ''timeout'')))"
  by (simp_all add: demo_env_def)

theorem GetDiscountsByCityFromAPI_isolation_witness:
  "GetMarketsByCity demo_env ''Konstanz'' =
     ([market ''M1'' ''edeka'', market ''M2'' ''rewe'', market ''M3'' ''edeka'',
       market ''M4'' ''aldi''], None) \<and>
   snd (GetDiscountsFromAPI demo_env (market ''M2'' ''rewe'')) = Some (Error ''timeout'') \<and>
   GetDiscountsByCityFromAPI demo_env ''Konstanz'' = [pasta ''M1'' ''1.99'', pasta ''M3'' ''1.99'']"
proof -
  have h: "GetMarketsByCity demo_env ''Konstanz'' =
     ([market ''M1'' ''edeka'', market ''M2'' ''rewe'', market ''M3'' ''edeka'',
       market ''M4'' ''aldi''], None)"
    by simp
  have f: "GetDiscountsFromAPI demo_env (market ''M1'' ''edeka'') = ([pasta ''M1'' ''1.99''], None)"
    "GetDiscountsFromAPI demo_env (market ''M2'' ''rewe'') = ([], Some (Error ''timeout''))"
    "GetDiscountsFromAPI demo_env (market ''M3'' ''edeka'') = ([pasta ''M3'' ''1.99''], None)"
    "GetDiscountsFromAPI demo_env (market ''M4'' ''aldi'') = ([], None)"
    by (simp_all add: GetDiscountsFromAPI_def market_def)
  from GetDiscountsByCityFromAPI_isolation [OF h, THEN conjunct1] h f show ?thesis
    by simp
qed

theorem GetDiscountsByCity_exactly_counterexample:
  "\<not> (snd (fst (GetDiscountsByCity demo_env rev ''Konstanz''
                  (shelf\<lparr>faults := [Some (Error ''connection lost'')]\<rparr>))) \<noteq> None
      \<longleftrightarrow> GetAllMarketIDsByCity demo_env ''Konstanz'' = [])"
  by (simp add: GetDiscountsByCity_def store_call_def)

theorem GetDiscountsByCity_errors_witness:
  "GetAllMarketIDsByCity demo_env ''Atlantis'' = [] \<and>
   GetDiscountsByCity demo_env rev ''Atlantis'' shelf =
     (([], Some (errors_New ''No markets found for Atlantis'')), shelf) \<and>
   GetAllMarketIDsByCity demo_env ''Konstanz'' \<noteq> [] \<and>
   snd (fst (GetDiscountsByCity demo_env rev ''Konstanz'' shelf)) = None \<and>
   snd (fst (GetDiscountsByCity demo_env rev ''Konstanz''
               (shelf\<lparr>faults := [None, Some (Error ''bad document'')]\<rparr>))) \<noteq> None"
proof -
  have a: "GetAllMarketIDsByCity demo_env ''Atlantis'' = []"
    and k: "GetAllMarketIDsByCity demo_env ''Konstanz'' \<noteq> []"
    by (simp_all add: demo_env_def)
  have s: "fst (store_call shelf) = None" "fst (store_call (snd (store_call shelf))) = None"
    by (simp_all add: store_call_def shelf_def empty_world_def)
  have t: "fst (store_call (snd (store_call
             (shelf\<lparr>faults := [None, Some (Error ''bad document'')]\<rparr>)))) \<noteq> None"
    by (simp add: store_call_def)
  from GetDiscountsByCity_errors [where e=demo_env and city="''Atlantis''" and iter=rev and w=shelf, THEN conjunct1] a
  have 1: "GetDiscountsByCity demo_env rev ''Atlantis'' shelf =
     (([], Some (errors_New ''No markets found for Atlantis'')), shelf)"
    by simp
  from GetDiscountsByCity_errors [where e=demo_env and city="''Konstanz''" and iter=rev and w=shelf, THEN conjunct2, THEN conjunct1] k s
  have 2: "snd (fst (GetDiscountsByCity demo_env rev ''Konstanz'' shelf)) = None"
    by simp
  from GetDiscountsByCity_errors [where e=demo_env and city="''Konstanz''" and iter=rev
       and w="shelf\<lparr>faults := [None, Some (Error ''bad document'')]\<rparr>", THEN conjunct2, THEN conjunct1] k t
  have 3: "snd (fst (GetDiscountsByCity demo_env rev ''Konstanz''
               (shelf\<lparr>faults := [None, Some (Error ''bad document'')]\<rparr>))) \<noteq> None"
    by simp
  from a k 1 2 3 show ?thesis by simp
qed

theorem GetDiscountsByCity_dedup_witness:
  "(\<forall>al :: (string \<times> Discount) list. mset (rev al) = mset al) \<and>
   GetDiscountsByCity demo_env rev ''Konstanz'' shelf =
     (([milk, (pasta ''M1'' ''1.99'')\<lparr>disc_ID := 5\<rparr>], None), shelf) \<and>
   distinct (map disc_Title [milk, (pasta ''M1'' ''1.99'')\<lparr>disc_ID := 5\<rparr>]) \<and>
   length (discounts_coll shelf) = 4"
proof -
  have i: "\<forall>al :: (string \<times> Discount) list. mset (rev al) = mset al" by simp
  have f: "Find_discounts_in [''M1'', ''M2''] shelf =
      [(pasta ''M1'' ''1.99'')\<lparr>disc_ID := 5\<rparr>, (pasta ''M2'' ''1.79'')\<lparr>disc_ID := 6\<rparr>, milk]"
    by (simp add: Find_discounts_in_def shelf_def empty_world_def pasta_def milk_def)
  have sc: "store_call shelf = (None, shelf)"
    by (simp add: store_call_def shelf_def empty_world_def)
  have m: "discountsMap_of [(pasta ''M1'' ''1.99'')\<lparr>disc_ID := 5\<rparr>,
             (pasta ''M2'' ''1.79'')\<lparr>disc_ID := 6\<rparr>, milk] =
           [(''3-for-2 Pasta'', (pasta ''M1'' ''1.99'')\<lparr>disc_ID := 5\<rparr>), (''Milk'', milk)]"
    by (simp add: discountsMap_of_def discountsMap_put_def pasta_def milk_def)
  have r: "GetDiscountsByCity demo_env rev ''Konstanz'' shelf =
     (([milk, (pasta ''M1'' ''1.99'')\<lparr>disc_ID := 5\<rparr>], None), shelf)"
    by (simp add: GetDiscountsByCity_def sc f m)
  from GetDiscountsByCity_dedup [OF i r]
  have "distinct (map disc_Title [milk, (pasta ''M1'' ''1.99'')\<lparr>disc_ID := 5\<rparr>])" by simp
  moreover have "length (discounts_coll shelf) = 4" by (simp add: shelf_def)
  ultimately show ?thesis using i r by simp
qed

section \<open>Properties of the recipe functions\<close>

lemma demo_env_store:
  "GetItemQuality demo_env = spec_GetItemQuality"
  "GetAllItems demo_env = spec_GetAllItems"
  "AddOrUpdateItem demo_env = spec_AddOrUpdateItem"
  by (simp_all add: demo_env_def)

lemma store_call_no_faults: "faults w = [] \<Longrightarrow> store_call w = (None, w)"
  by (simp add: store_call_def)

lemma kitchen_simps:
  "items_coll kitchen = [flour_A, flour_B, salt]"
  "recipes_coll kitchen =
     [recipe_of 11 [step_of [stepItem_of 24]], recipe_of 10 [step_of [stepItem_of 21]]]"
  "faults kitchen = []"
  by (simp_all add: kitchen_def empty_world_def)

lemma example_fields [simp]:
  "recipe_ID (recipe_of i steps) = i"
  "recipe_Deleted (recipe_of i steps) = False"
  "recipe_Steps (recipe_of i steps) = steps"
  "recipe_Items (recipe_of i steps) = []"
  "step_Items (step_of sis) = sis"
  "si_ItemID (stepItem_of i) = i"
  "si_Item (stepItem_of i) = zero_Item"
  "item_ID flour_A = 21" "item_ID flour_B = 22" "item_ID salt = 24"
  "item_Name flour_A = ''Flour''" "item_Name flour_B = ''Flour''" "item_Name salt = ''Salt''"
  by (simp_all add: recipe_of_def step_of_def stepItem_of_def flour_A_def flour_B_def salt_def)

lemma bson_example [simp]:
  "bson_Recipe (recipe_of i [step_of [stepItem_of k]]) = recipe_of i [step_of [stepItem_of k]]"
  by (simp add: bson_Recipe_def recipe_of_def step_of_def stepItem_of_def strip_Step_def
      strip_StepItem_def)

text \<open>
  Claim C4. In the example kitchen, recipe 10 is deleted with \<open>DeleteRecipeById\<close>. The
  document stays in the collection with its flag set, and \<open>GetAllRecipes\<close> leaves it out,
  but \<open>GetRecipeById\<close> still returns it without an error: its query has no condition
  on \<open>deleted\<close>.
\<close>

theorem GetRecipeById_returns_deleted:
  "fst (DeleteRecipeById demo_env 10 kitchen) = (10, None) \<and>
   recipes_coll (snd (DeleteRecipeById demo_env 10 kitchen)) =
     [recipe_of 11 [step_of [stepItem_of 24]],
      (recipe_of 10 [step_of [stepItem_of 21]])\<lparr>recipe_Deleted := True\<rparr>] \<and>
   map recipe_ID (fst (fst (GetAllRecipes demo_env (snd (DeleteRecipeById demo_env 10 kitchen))))) =
     [11] \<and>
   fst (GetRecipeById demo_env 10 (snd (DeleteRecipeById demo_env 10 kitchen))) =
     ((recipe_of 10 [step_of [stepItem_of 21]])\<lparr>recipe_Deleted := True\<rparr>, None)"
proof -
  define w1 where "w1 = snd (DeleteRecipeById demo_env 10 kitchen)"
  have d: "DeleteRecipeById demo_env 10 kitchen =
     ((10, None), kitchen\<lparr>recipes_coll := [recipe_of 11 [step_of [stepItem_of 24]],
        (recipe_of 10 [step_of [stepItem_of 21]])\<lparr>recipe_Deleted := True\<rparr>]\<rparr>)"
    by (simp add: DeleteRecipeById_def store_call_no_faults kitchen_simps)
  then have w1: "w1 = kitchen\<lparr>recipes_coll := [recipe_of 11 [step_of [stepItem_of 24]],
        (recipe_of 10 [step_of [stepItem_of 21]])\<lparr>recipe_Deleted := True\<rparr>]\<rparr>"
    by (simp add: w1_def)
  have f: "faults w1 = []" by (simp add: w1 kitchen_simps)
  have b: "bson_Recipe ((recipe_of 10 [step_of [stepItem_of 21]])\<lparr>recipe_Deleted := True\<rparr>) =
           (recipe_of 10 [step_of [stepItem_of 21]])\<lparr>recipe_Deleted := True\<rparr>"
    by (simp add: bson_Recipe_def recipe_of_def step_of_def stepItem_of_def strip_Step_def
      strip_StepItem_def)
  have g: "fst (GetRecipeById demo_env 10 w1) =
     ((recipe_of 10 [step_of [stepItem_of 21]])\<lparr>recipe_Deleted := True\<rparr>, None)"
    by (simp add: GetRecipeById_def store_call_no_faults f) (simp add: w1 kitchen_simps b store_call_no_faults)
  have a: "map recipe_ID (fst (fst (GetAllRecipes demo_env w1))) = [11]"
    by (simp add: GetAllRecipes_def demo_env_store spec_GetAllItems_def store_call_no_faults f)
       (simp add: w1 kitchen_simps MapItemIdsToItem_def)
  from d g a show ?thesis unfolding w1_def by simp
qed


lemma update_recipes_stops:
  assumes "update_recipes e pre w = (Returned None, w1)"
    and "AddOrUpdateRecipe e recipe w1 = (Returned (oid, Some err), w2)"
  shows "update_recipes e (pre @ recipe # post) w =
           (Returned (Some (LogError e ''CleanUpItemsInRecipes'' err)), w2)"
  using assms
proof (induction pre arbitrary: w)
  case Nil
  then show ?case by simp
next
  case (Cons a pre)
  then show ?case
    by (auto split: prod.splits outcome.splits option.splits)
qed

text \<open>
  Claim C1, as amended. The first write-back that fails ends the pass: when the recipes
  \<open>pre\<close> before it have been written and the write of \<open>recipe\<close> returns the error
  \<open>err\<close>, then \<open>CleanUpItemsInRecipes\<close> returns that error (as \<open>LogError\<close> hands it
  back) in the store as the failed write left it. The recipes \<open>post\<close> after it play no
  part: they are not written, and no count is logged.
\<close>

theorem CleanUpItemsInRecipes_aborts:
  assumes "GetAllItems e w = ((items, None), w1)"
    and "GetAllRecipes e w1 = ((recipes0, None), w2)"
    and "clean_recipes (best_itemMap (GetItemQuality e) items) recipes0 0 =
           (pre @ recipe # post, n)"
    and "update_recipes e pre w2 = (Returned None, w3)"
    and "AddOrUpdateRecipe e recipe w3 = (Returned (oid, Some err), w4)"
  shows "CleanUpItemsInRecipes e w =
           (Returned (Some (LogError e ''CleanUpItemsInRecipes'' err), None), w4)"
  using assms update_recipes_stops [OF assms(4,5), of post]
  by (simp add: CleanUpItemsInRecipes_def)

lemma quality_examples [simp]:
  "spec_GetItemQuality flour_A = 1" "spec_GetItemQuality flour_B = 2"
  "spec_GetItemQuality salt = 0"
  by (simp_all add: spec_GetItemQuality_def flour_A_def flour_B_def salt_def)

lemma kitchen_map:
  "best_itemMap spec_GetItemQuality [flour_A, flour_B, salt] =
     [''Flour'' \<mapsto> flour_B, ''Salt'' \<mapsto> salt]"
  by (simp add: best_itemMap_def best_step_def)

lemma kitchen_index [simp]:
  "index_items (itemsMap_of [flour_A, flour_B, salt]) 21 = flour_A"
  "index_items (itemsMap_of [flour_A, flour_B, salt]) 22 = flour_B"
  "index_items (itemsMap_of [flour_A, flour_B, salt]) 24 = salt"
  by (simp_all add: index_items_def itemsMap_of_def)

lemma kitchen_hydrated [simp]:
  "MapItemIdsToItem (recipe_of i [step_of [stepItem_of k]]) items =
   recipe_of i [step_of [(stepItem_of k)\<lparr>si_Item := index_items (itemsMap_of items) k\<rparr>]]"
  by (simp add: MapItemIdsToItem_def hydrate_Step_def hydrate_StepItem_def recipe_of_def
      step_of_def)

lemma kitchen_cleaned:
  "clean_recipes [''Flour'' \<mapsto> flour_B, ''Salt'' \<mapsto> salt]
     [recipe_of 11 [step_of [(stepItem_of 24)\<lparr>si_Item := salt\<rparr>]],
      recipe_of 10 [step_of [(stepItem_of 21)\<lparr>si_Item := flour_A\<rparr>]]] 0 =
   ([recipe_of 11 [step_of [(stepItem_of 24)\<lparr>si_Item := salt\<rparr>]],
     recipe_of 10 [step_of [(stepItem_of 22)\<lparr>si_Item := flour_B\<rparr>]]], 2)"
  by (simp add: recipe_of_def step_of_def stepItem_of_def)

lemma kitchen_faulty_simps:
  "items_coll kitchen_faulty = [flour_A, flour_B, salt]"
  "recipes_coll kitchen_faulty =
     [recipe_of 11 [step_of [stepItem_of 24]], recipe_of 10 [step_of [stepItem_of 21]]]"
  "faults kitchen_faulty = [None, None, None, None, Some (Error ''write failed'')]"
  by (simp_all add: kitchen_faulty_def kitchen_simps)

lemma prepare_example:
  "it \<in> {flour_A, flour_B, salt} \<Longrightarrow>
   PrepareRecipeForDB demo_env (recipe_of i [step_of [(stepItem_of k)\<lparr>si_Item := it\<rparr>]]) v =
     (Returned (recipe_of i [step_of [stepItem_of (item_ID it)]], None), v)"
  by (auto simp: PrepareRecipeForDB_def demo_env_store spec_AddOrUpdateItem_def IsZero_def
      recipe_of_def step_of_def stepItem_of_def)

lemma faulty_items:
  "GetAllItems demo_env kitchen_faulty =
     (([flour_A, flour_B, salt], None),
      kitchen\<lparr>faults := [None, None, None, Some (Error ''write failed'')]\<rparr>)"
  by (simp add: demo_env_store spec_GetAllItems_def store_call_def kitchen_faulty_def kitchen_simps)

lemma faulty_recipes:
  "GetAllRecipes demo_env (kitchen\<lparr>faults := [None, None, None, Some (Error ''write failed'')]\<rparr>) =
     (([recipe_of 11 [step_of [(stepItem_of 24)\<lparr>si_Item := salt\<rparr>]],
        recipe_of 10 [step_of [(stepItem_of 21)\<lparr>si_Item := flour_A\<rparr>]]], None),
      kitchen\<lparr>faults := [Some (Error ''write failed'')]\<rparr>)"
  by (simp add: GetAllRecipes_def demo_env_store spec_GetAllItems_def store_call_def kitchen_simps)

lemma faulty_write:
  "AddOrUpdateRecipe demo_env (recipe_of 11 [step_of [(stepItem_of 24)\<lparr>si_Item := salt\<rparr>]])
     (kitchen\<lparr>faults := [Some (Error ''write failed'')]\<rparr>) =
   (Returned (11, Some (Error ''write failed'')), kitchen)"
  by (simp add: AddOrUpdateRecipe_def prepare_example IsZero_def store_call_def spec_LogError_def
      kitchen_def empty_world_def)

lemma clean_items_run:
  "GetAllItems demo_env kitchen = (([flour_A, flour_B, salt], None), kitchen)"
  by (simp add: demo_env_store spec_GetAllItems_def store_call_def kitchen_simps)

lemma clean_recipes_run:
  "GetAllRecipes demo_env kitchen =
     (([recipe_of 11 [step_of [(stepItem_of 24)\<lparr>si_Item := salt\<rparr>]],
        recipe_of 10 [step_of [(stepItem_of 21)\<lparr>si_Item := flour_A\<rparr>]]], None), kitchen)"
  by (simp add: GetAllRecipes_def demo_env_store spec_GetAllItems_def store_call_def kitchen_simps)

lemma set_recipe_example:
  "set_recipe (recipe_of i [step_of [stepItem_of k]]) (recipe_of i [step_of [stepItem_of j]]) =
   recipe_of i [step_of [stepItem_of k]]"
  by (simp add: set_recipe_def)

lemma clean_write_11:
  "AddOrUpdateRecipe demo_env (recipe_of 11 [step_of [(stepItem_of 24)\<lparr>si_Item := salt\<rparr>]]) kitchen =
   (Returned (11, None), kitchen)"
  by (simp add: AddOrUpdateRecipe_def prepare_example IsZero_def store_call_def
      kitchen_simps set_recipe_example)

lemma clean_write_10:
  "AddOrUpdateRecipe demo_env (recipe_of 10 [step_of [(stepItem_of 22)\<lparr>si_Item := flour_B\<rparr>]]) kitchen =
   (Returned (10, None), kitchen_clean)"
  by (simp add: AddOrUpdateRecipe_def prepare_example IsZero_def store_call_def
      kitchen_simps set_recipe_example kitchen_clean_def)

lemma clean_writes:
  "update_recipes demo_env
     [recipe_of 11 [step_of [(stepItem_of 24)\<lparr>si_Item := salt\<rparr>]],
      recipe_of 10 [step_of [(stepItem_of 22)\<lparr>si_Item := flour_B\<rparr>]]] kitchen =
   (Returned None, kitchen_clean)"
  by (simp only: update_recipes.simps clean_write_11 clean_write_10 prod.case option.case
      outcome.case)

lemma kitchen_run:
  "CleanUpItemsInRecipes demo_env kitchen = (Returned (None, Some 2), kitchen_clean)"
  by (simp only: CleanUpItemsInRecipes_def clean_items_run clean_recipes_run kitchen_map
      kitchen_cleaned clean_writes demo_env_store(1) prod.case option.case outcome.case Let_def)

theorem CleanUpItemsInRecipes_aborts_witness:
  "CleanUpItemsInRecipes demo_env kitchen_faulty =
     (Returned (Some (Error ''write failed''), None), kitchen)"
proof -
  have h3: "clean_recipes (best_itemMap (GetItemQuality demo_env) [flour_A, flour_B, salt])
      [recipe_of 11 [step_of [(stepItem_of 24)\<lparr>si_Item := salt\<rparr>]],
       recipe_of 10 [step_of [(stepItem_of 21)\<lparr>si_Item := flour_A\<rparr>]]] 0 =
     ([] @ recipe_of 11 [step_of [(stepItem_of 24)\<lparr>si_Item := salt\<rparr>]] #
        [recipe_of 10 [step_of [(stepItem_of 22)\<lparr>si_Item := flour_B\<rparr>]]], 2)"
    by (simp only: demo_env_store(1) kitchen_map kitchen_cleaned append_Nil)
  have h4: "update_recipes demo_env []
      (kitchen\<lparr>faults := [Some (Error ''write failed'')]\<rparr>) =
      (Returned None, kitchen\<lparr>faults := [Some (Error ''write failed'')]\<rparr>)"
    by simp
  from CleanUpItemsInRecipes_aborts [OF faulty_items faulty_recipes h3 h4 faulty_write]
  show ?thesis by (simp add: spec_LogError_def)
qed


section \<open>Two passes in a row\<close>

lemma knows_itemsD:
  "knows_items e its \<Longrightarrow> faults v = [] \<Longrightarrow> items_coll v = its \<Longrightarrow> it \<in> set its \<Longrightarrow>
   AddOrUpdateItem e it v = (Returned (item_ID it, None), v)"
  unfolding knows_items_def by blast

lemma clean_items_eq:
  "clean_items m sis n =
     (map (clean_StepItem m) sis, n + length (filter (found_in m) sis))"
  by (induction sis arbitrary: n) (auto simp: clean_StepItem_def found_in_def split: option.splits)

lemma clean_steps_eq:
  "clean_steps m sts n =
     (map (on_items (clean_StepItem m)) sts,
      n + sum_list (map (\<lambda>st. length (filter (found_in m) (step_Items st))) sts))"
  by (induction sts arbitrary: n) (auto simp: clean_items_eq on_items_def)

lemma clean_recipes_eq:
  "clean_recipes m rs n =
     (map (on_steps (clean_StepItem m)) rs,
      n + sum_list (map (\<lambda>r. sum_list (map (\<lambda>st. length (filter (found_in m) (step_Items st)))
                                     (recipe_Steps r))) rs))"
  by (induction rs arbitrary: n) (auto simp: clean_steps_eq on_steps_def)

lemma prepare_items_known:
  assumes k: "knows_items e its" and f: "faults w = []" and i: "items_coll w = its"
  shows "\<forall>si \<in> set sis. si_Item si \<in> set its \<Longrightarrow>
         prepare_items e r sis w = (Returned (map prep_StepItem sis, None), w)"
proof (induction sis)
  case Nil
  show ?case by simp
next
  case (Cons si sis)
  from Cons.prems have "si_Item si \<in> set its" by simp
  then have 1: "AddOrUpdateItem e (si_Item si) w = (Returned (item_ID (si_Item si), None), w)"
    by (rule knows_itemsD [OF k f i])
  from Cons.prems have "\<forall>si \<in> set sis. si_Item si \<in> set its" by simp
  then have 2: "prepare_items e r sis w = (Returned (map prep_StepItem sis, None), w)"
    by (rule Cons.IH)
  show ?case by (simp add: 1 2 prep_StepItem_def)
qed

lemma prepare_steps_known:
  assumes k: "knows_items e its" and f: "faults w = []" and i: "items_coll w = its"
  shows "\<forall>st \<in> set sts. \<forall>si \<in> set (step_Items st). si_Item si \<in> set its \<Longrightarrow>
         prepare_steps e r sts w = (Returned (map (on_items prep_StepItem) sts, None), w)"
proof (induction sts)
  case Nil
  show ?case by simp
next
  case (Cons st sts)
  from Cons.prems have "\<forall>si \<in> set (step_Items st). si_Item si \<in> set its" by simp
  then have 1: "prepare_items e r (step_Items st) w =
      (Returned (map prep_StepItem (step_Items st), None), w)"
    by (rule prepare_items_known [OF k f i])
  from Cons.prems have "\<forall>st \<in> set sts. \<forall>si \<in> set (step_Items st). si_Item si \<in> set its"
    by simp
  then have 2: "prepare_steps e r sts w = (Returned (map (on_items prep_StepItem) sts, None), w)"
    by (rule Cons.IH)
  show ?case by (simp add: 1 2 on_items_def)
qed

lemma PrepareRecipeForDB_known:
  assumes k: "knows_items e its" and f: "faults w = []" and i: "items_coll w = its"
    and r: "items_known its r"
  shows "PrepareRecipeForDB e r w = (Returned (on_steps prep_StepItem r, None), w)"
proof -
  from r have "\<forall>st \<in> set (recipe_Steps r). \<forall>si \<in> set (step_Items st). si_Item si \<in> set its"
    by (simp add: items_known_def)
  then have "prepare_steps e r (recipe_Steps r) w =
      (Returned (map (on_items prep_StepItem) (recipe_Steps r), None), w)"
    by (rule prepare_steps_known [OF k f i])
  then show ?thesis by (simp add: PrepareRecipeForDB_def on_steps_def)
qed

lemma AddOrUpdateRecipe_known:
  assumes k: "knows_items e its" and f: "faults w = []" and i: "items_coll w = its"
    and r: "items_known its r" and z: "\<not> IsZero (recipe_ID r)"
  shows "AddOrUpdateRecipe e r w =
     (Returned (recipe_ID r, None),
      w\<lparr>recipes_coll := update_first (\<lambda>x. recipe_ID x = recipe_ID r)
                           (set_recipe (on_steps prep_StepItem r)) (recipes_coll w)\<rparr>)"
proof -
  have 1: "PrepareRecipeForDB e r w = (Returned (on_steps prep_StepItem r, None), w)"
    by (rule PrepareRecipeForDB_known [OF k f i r])
  have 2: "recipe_ID (on_steps prep_StepItem r) = recipe_ID r" by (simp add: on_steps_def)
  show ?thesis
    by (simp add: AddOrUpdateRecipe_def 1 2 z store_call_no_faults [OF f])
qed

lemma update_recipes_known:
  assumes k: "knows_items e its"
  shows "faults w = [] \<Longrightarrow> items_coll w = its \<Longrightarrow>
         \<forall>r \<in> set rs. \<not> IsZero (recipe_ID r) \<and> items_known its r \<Longrightarrow>
         update_recipes e rs w =
           (Returned None, w\<lparr>recipes_coll := fold write_back rs (recipes_coll w)\<rparr>)"
proof (induction rs arbitrary: w)
  case Nil
  show ?case by simp
next
  case (Cons r rs)
  let ?w1 = "w\<lparr>recipes_coll := write_back r (recipes_coll w)\<rparr>"
  from Cons.prems(3) have r: "items_known its r" and z: "\<not> IsZero (recipe_ID r)"
    by simp_all
  have a: "AddOrUpdateRecipe e r w = (Returned (recipe_ID r, None), ?w1)"
    unfolding write_back_def by (rule AddOrUpdateRecipe_known [OF k Cons.prems(1) Cons.prems(2) r z])
  have f1: "faults ?w1 = []" using Cons.prems(1) by simp
  have i1: "items_coll ?w1 = its" using Cons.prems(2) by simp
  from Cons.prems(3) have rest: "\<forall>r \<in> set rs. \<not> IsZero (recipe_ID r) \<and> items_known its r"
    by simp
  have b: "update_recipes e rs ?w1 =
     (Returned None, ?w1\<lparr>recipes_coll := fold write_back rs (recipes_coll ?w1)\<rparr>)"
    by (rule Cons.IH [OF f1 i1 rest])
  show ?case by (simp add: a b)
qed


lemma update_first_distinct:
  "distinct (map key c) \<Longrightarrow> x \<in> set c \<Longrightarrow>
   update_first (\<lambda>y. key y = key x) f c = map (\<lambda>y. if y = x then f y else y) c"
proof (induction c)
  case Nil
  then show ?case by simp
next
  case (Cons a c)
  show ?case
  proof (cases "a = x")
    case True
    with Cons.prems have "\<forall>y \<in> set c. y \<noteq> x" by auto
    then have "map (\<lambda>y. if y = x then f y else y) c = c"
      by (induction c) auto
    with True show ?thesis by simp
  next
    case False
    with Cons.prems have "x \<in> set c" "key a \<noteq> key x" by auto
    with Cons False show ?thesis by simp
  qed
qed

lemma update_first_keys:
  "(\<And>y. P y \<Longrightarrow> key (f y) = key y) \<Longrightarrow> map key (update_first P f c) = map key c"
  by (induction c) auto

lemma fold_update_first:
  assumes g: "\<And>x y. key y = key x \<Longrightarrow> key (g x y) = key y"
  shows "distinct (map key c) \<Longrightarrow> set xs \<subseteq> set c \<Longrightarrow> distinct xs \<Longrightarrow>
         fold (\<lambda>x c. update_first (\<lambda>y. key y = key x) (g x) c) xs c =
           map (\<lambda>y. if y \<in> set xs then g y y else y) c"
proof (induction xs arbitrary: c)
  case Nil
  show ?case by simp
next
  case (Cons x xs)
  let ?c1 = "update_first (\<lambda>y. key y = key x) (g x) c"
  from Cons.prems have xc: "x \<in> set c" by simp
  have c1: "?c1 = map (\<lambda>y. if y = x then g x y else y) c"
    by (rule update_first_distinct [OF Cons.prems(1) xc])
  have k1: "map key ?c1 = map key c"
    by (rule update_first_keys) (rule g)
  with Cons.prems(1) have d1: "distinct (map key ?c1)" by simp
  from Cons.prems have xs_c: "set xs \<subseteq> set c" and x_xs: "x \<notin> set xs" and dxs: "distinct xs"
    by simp_all
  have sub1: "set xs \<subseteq> set ?c1"
  proof
    fix y assume y: "y \<in> set xs"
    with xs_c have "y \<in> set c" by blast
    moreover from y x_xs have "y \<noteq> x" by blast
    ultimately show "y \<in> set ?c1" unfolding c1 by force
  qed
  have inj: "inj_on key (set c)"
    using Cons.prems(1) by (simp add: distinct_map)
  have gx: "g x x \<notin> set xs"
  proof
    assume a: "g x x \<in> set xs"
    with xs_c have "g x x \<in> set c" by blast
    moreover have "key (g x x) = key x" by (rule g) simp
    ultimately have "g x x = x" using inj xc by (auto dest: inj_onD)
    with a x_xs show False by simp
  qed
  have "fold (\<lambda>x c. update_first (\<lambda>y. key y = key x) (g x) c) (x # xs) c =
        fold (\<lambda>x c. update_first (\<lambda>y. key y = key x) (g x) c) xs ?c1"
    by simp
  also have "\<dots> = map (\<lambda>y. if y \<in> set xs then g y y else y) ?c1"
    by (rule Cons.IH [OF d1 sub1 dxs])
  also have "\<dots> = map (\<lambda>y. if y \<in> set (x # xs) then g y y else y) c"
    unfolding c1 using gx x_xs by auto
  finally show ?case .
qed

lemma rewritten_ID [simp]: "recipe_ID (rewritten its m r) = recipe_ID r"
  by (simp add: rewritten_def on_steps_def MapItemIdsToItem_def bson_Recipe_def)

lemma set_recipe_ID [simp]: "recipe_ID (set_recipe n s) = recipe_ID n"
  by (simp add: set_recipe_def bson_Recipe_def)

lemma canon_Recipe_ID [simp]: "recipe_ID (canon_Recipe its m r) = recipe_ID r"
  by (simp add: canon_Recipe_def on_steps_def)

lemma write_back_rewritten:
  "write_back (rewritten its m x) =
     update_first (\<lambda>y. recipe_ID y = recipe_ID x)
       (set_recipe (on_steps prep_StepItem (rewritten its m x)))"
  by (simp add: write_back_def fun_eq_iff)

lemma fold_write_back:
  assumes d: "distinct (map recipe_ID c)"
  shows "fold write_back (map (rewritten its m) (filter P c)) c =
         map (\<lambda>y. if P y then canon_Recipe its m y else y) c"
proof -
  let ?g = "\<lambda>x. set_recipe (on_steps prep_StepItem (rewritten its m x))"
  have k: "\<And>x y. recipe_ID y = recipe_ID x \<Longrightarrow> recipe_ID (?g x y) = recipe_ID y"
    by (simp add: on_steps_def)
  from d have dc: "distinct c" by (simp add: distinct_map)
  have "fold write_back (map (rewritten its m) (filter P c)) c =
        fold (\<lambda>x c. update_first (\<lambda>y. recipe_ID y = recipe_ID x) (?g x) c) (filter P c) c"
    by (simp add: fold_map comp_def write_back_rewritten)
  also have "\<dots> = map (\<lambda>y. if y \<in> set (filter P c) then ?g y y else y) c"
  proof (rule fold_update_first [where key = recipe_ID and g = ?g])
    show "distinct (map recipe_ID c)" by (rule d)
    show "set (filter P c) \<subseteq> set c" by simp
    show "distinct (filter P c)" using dc by simp
    show "\<And>x y. recipe_ID y = recipe_ID x \<Longrightarrow> recipe_ID (?g x y) = recipe_ID y" by (rule k)
  qed
  also have "\<dots> = map (\<lambda>y. if P y then canon_Recipe its m y else y) c"
    by (simp add: canon_Recipe_def)
  finally show ?thesis .
qed


lemma on_items_comp: "on_items f (on_items g st) = on_items (f \<circ> g) st"
  by (simp add: on_items_def)

lemma on_items_Items [simp]: "step_Items (on_items f st) = map f (step_Items st)"
  by (simp add: on_items_def)

lemma strip_Step_on_items: "strip_Step = on_items strip_StepItem"
  by (simp add: fun_eq_iff strip_Step_def on_items_def)

lemma hydrate_Step_on_items: "hydrate_Step im = on_items (hydrate_StepItem im)"
  by (simp add: fun_eq_iff hydrate_Step_def on_items_def)

lemma pipeline_fun:
  "(\<lambda>x. clean_StepItem m (hydrate_StepItem (itemsMap_of its) (strip_StepItem x))) =
   pipeline its m"
  by (simp add: fun_eq_iff pipeline_def)

lemma canon_fun:
  "(\<lambda>x. strip_StepItem (prep_StepItem (pipeline its m x))) = canon_StepItem its m"
  by (simp add: fun_eq_iff pipeline_def canon_StepItem_def)

lemma strip_StepItem_idem [simp]: "strip_StepItem (strip_StepItem x) = strip_StepItem x"
  by (simp add: strip_StepItem_def)

lemma rewritten_Steps:
  "recipe_Steps (rewritten its m r) = map (on_items (pipeline its m)) (recipe_Steps r)"
  by (simp add: rewritten_def on_steps_def MapItemIdsToItem_def bson_Recipe_def
      strip_Step_on_items hydrate_Step_on_items on_items_comp comp_def pipeline_fun)

lemma pipeline_resolved:
  assumes "si_ItemID si \<in> item_ID ` set its"
  shows "\<exists>b \<in> set its. best_itemMap q its (item_Name b) = Some b \<and>
           found_in (best_itemMap q its) (hydrate_StepItem (itemsMap_of its) (strip_StepItem si)) \<and>
           pipeline its (best_itemMap q its) si = si\<lparr>si_Item := b, si_ItemID := item_ID b\<rparr>"
proof -
  let ?m = "best_itemMap q its"
  let ?it0 = "index_items (itemsMap_of its) (si_ItemID si)"
  from assms have "\<exists>it \<in> set its. item_ID it = si_ItemID si" by auto
  then have it0: "?it0 \<in> set its" by (rule index_items_found [THEN conjunct1])
  then have "item_Name ?it0 \<in> item_Name ` set its" by simp
  then have "?m (item_Name ?it0) \<noteq> None" by (simp add: best_itemMap_None_iff)
  then obtain b where b: "?m (item_Name ?it0) = Some b" by blast
  then have fb: "first_best q its (item_Name ?it0) b" by (rule best_itemMap_Some)
  then have bin: "b \<in> set its" and bn: "item_Name b = item_Name ?it0"
    by (simp_all add: first_best_in_bucket)
  have h: "si_Item (hydrate_StepItem (itemsMap_of its) (strip_StepItem si)) = ?it0"
    by (simp add: hydrate_StepItem_def strip_StepItem_def)
  have "pipeline its ?m si = si\<lparr>si_Item := b, si_ItemID := item_ID b\<rparr>"
    by (simp add: pipeline_def clean_StepItem_def h b) (simp add: hydrate_StepItem_def strip_StepItem_def)
  moreover have "found_in ?m (hydrate_StepItem (itemsMap_of its) (strip_StepItem si))"
    by (simp add: found_in_def h b)
  moreover have "?m (item_Name b) = Some b" using b bn by simp
  ultimately show ?thesis using bin by blast
qed

lemma canon_StepItem_pipeline:
  "canon_StepItem its m si = strip_StepItem (prep_StepItem (pipeline its m si))"
  by (simp add: canon_StepItem_def pipeline_def)

lemma canon_StepItem_resolved:
  assumes "si_ItemID si \<in> item_ID ` set its"
  shows "\<exists>b \<in> set its. best_itemMap q its (item_Name b) = Some b \<and>
           canon_StepItem its (best_itemMap q its) si =
             si\<lparr>si_Item := zero_Item, si_ItemID := item_ID b\<rparr>"
proof -
  from pipeline_resolved [OF assms, of q] obtain b where
    b: "b \<in> set its" "best_itemMap q its (item_Name b) = Some b"
       "pipeline its (best_itemMap q its) si = si\<lparr>si_Item := b, si_ItemID := item_ID b\<rparr>"
    by blast
  have "canon_StepItem its (best_itemMap q its) si =
          si\<lparr>si_Item := zero_Item, si_ItemID := item_ID b\<rparr>"
    by (simp add: canon_StepItem_pipeline b(3) prep_StepItem_def strip_StepItem_def)
  with b show ?thesis by blast
qed

lemma index_items_distinct:
  assumes "distinct (map item_ID its)" "b \<in> set its"
  shows "index_items (itemsMap_of its) (item_ID b) = b"
proof -
  from assms(2) have "\<exists>it \<in> set its. item_ID it = item_ID b" by blast
  then have "index_items (itemsMap_of its) (item_ID b) \<in> set its \<and>
             item_ID (index_items (itemsMap_of its) (item_ID b)) = item_ID b"
    by (rule index_items_found)
  moreover from assms(1) have "inj_on item_ID (set its)" by (simp add: distinct_map)
  ultimately show ?thesis using assms(2) by (auto dest: inj_onD)
qed

lemma canon_StepItem_fixed:
  assumes d: "distinct (map item_ID its)" and b: "b \<in> set its"
    and m: "m (item_Name b) = Some b"
  shows "canon_StepItem its m (si\<lparr>si_Item := zero_Item, si_ItemID := item_ID b\<rparr>) =
         si\<lparr>si_Item := zero_Item, si_ItemID := item_ID b\<rparr>"
  by (simp add: canon_StepItem_def strip_StepItem_def hydrate_StepItem_def
      index_items_distinct [OF d b] clean_StepItem_def m prep_StepItem_def)

lemma canon_StepItem_idem:
  assumes d: "distinct (map item_ID its)" and r: "si_ItemID si \<in> item_ID ` set its"
  shows "canon_StepItem its (best_itemMap q its) (canon_StepItem its (best_itemMap q its) si) =
         canon_StepItem its (best_itemMap q its) si"
proof -
  from canon_StepItem_resolved [OF r, of q] obtain b where
    b: "b \<in> set its" "best_itemMap q its (item_Name b) = Some b"
       "canon_StepItem its (best_itemMap q its) si =
          si\<lparr>si_Item := zero_Item, si_ItemID := item_ID b\<rparr>"
    by blast
  show ?thesis unfolding b(3)
    by (rule canon_StepItem_fixed [where m = "best_itemMap q its", OF d b(1) b(2)])
qed

lemma canon_StepItem_ItemID:
  assumes r: "si_ItemID si \<in> item_ID ` set its"
  shows "si_ItemID (canon_StepItem its (best_itemMap q its) si) \<in> item_ID ` set its"
proof -
  from canon_StepItem_resolved [OF r, of q] obtain b where
    b: "b \<in> set its"
       "canon_StepItem its (best_itemMap q its) si =
          si\<lparr>si_Item := zero_Item, si_ItemID := item_ID b\<rparr>"
    by blast
  show ?thesis unfolding b(2) using b(1) by simp
qed

lemma canon_Recipe_eq:
  assumes "\<not> recipe_Deleted r"
  shows "canon_Recipe its m r =
     r\<lparr>recipe_Items := map strip_StepItem (recipe_Items r),
       recipe_Steps := map (on_items (canon_StepItem its m)) (recipe_Steps r)\<rparr>"
proof -
  have s: "recipe_Steps (bson_Recipe (on_steps prep_StepItem (rewritten its m r))) =
           map (on_items (canon_StepItem its m)) (recipe_Steps r)"
    by (simp add: bson_Recipe_def on_steps_def rewritten_Steps strip_Step_on_items
        on_items_comp comp_def canon_fun)
  have i: "recipe_Items (on_steps prep_StepItem (rewritten its m r)) =
           map strip_StepItem (recipe_Items r)"
    by (simp add: on_steps_def rewritten_def MapItemIdsToItem_def bson_Recipe_def)
  have d: "recipe_Deleted (on_steps prep_StepItem (rewritten its m r)) = recipe_Deleted r"
    by (simp add: on_steps_def rewritten_def MapItemIdsToItem_def bson_Recipe_def)
  have o: "recipe_ID (bson_Recipe (on_steps prep_StepItem (rewritten its m r))) = recipe_ID r"
    "recipe_Name (bson_Recipe (on_steps prep_StepItem (rewritten its m r))) = recipe_Name r"
    "recipe_Author (bson_Recipe (on_steps prep_StepItem (rewritten its m r))) = recipe_Author r"
    "recipe_Description (bson_Recipe (on_steps prep_StepItem (rewritten its m r))) =
       recipe_Description r"
    "recipe_Props (bson_Recipe (on_steps prep_StepItem (rewritten its m r))) = recipe_Props r"
    by (simp_all add: on_steps_def rewritten_def MapItemIdsToItem_def bson_Recipe_def)
  show ?thesis
    using assms
    by (intro Recipe.equality) (simp_all add: canon_Recipe_def set_recipe_def s i d o)
qed


lemma GetAllRecipes_known:
  assumes s: "scans_items e" and f: "faults w = []"
  shows "GetAllRecipes e w =
     ((map (\<lambda>r. MapItemIdsToItem (bson_Recipe r) (items_coll w))
          (filter (\<lambda>r. \<not> recipe_Deleted r) (recipes_coll w)), None), w)"
proof -
  from s f have g: "GetAllItems e w = ((items_coll w, None), w)"
    by (simp add: scans_items_def)
  show ?thesis
    by (simp add: GetAllRecipes_def store_call_no_faults [OF f] g comp_def)
qed

lemma rewritten_items_known:
  assumes "resolved its r"
  shows "items_known its (rewritten its (best_itemMap q its) r)"
  unfolding items_known_def rewritten_Steps
proof (intro ballI)
  fix st si
  assume st: "st \<in> set (map (on_items (pipeline its (best_itemMap q its))) (recipe_Steps r))"
    and si: "si \<in> set (step_Items st)"
  from st obtain st0 where st0: "st0 \<in> set (recipe_Steps r)"
    "st = on_items (pipeline its (best_itemMap q its)) st0" by auto
  with si obtain si0 where si0: "si0 \<in> set (step_Items st0)"
    "si = pipeline its (best_itemMap q its) si0" by auto
  from assms st0(1) si0(1) have "si_ItemID si0 \<in> item_ID ` set its"
    by (simp add: resolved_def)
  from pipeline_resolved [OF this, of q] si0(2) show "si_Item si \<in> set its"
    by auto
qed

lemma found_all:
  assumes "resolved its r"
  shows "sum_list (map (\<lambda>st. length (filter (found_in (best_itemMap q its)) (step_Items st)))
                     (recipe_Steps (MapItemIdsToItem (bson_Recipe r) its))) =
         sum_list (map (\<lambda>st. length (step_Items st)) (recipe_Steps r))"
proof -
  let ?h = "\<lambda>si. hydrate_StepItem (itemsMap_of its) (strip_StepItem si)"
  have steps: "recipe_Steps (MapItemIdsToItem (bson_Recipe r) its) =
               map (on_items ?h) (recipe_Steps r)"
    by (simp add: MapItemIdsToItem_def bson_Recipe_def strip_Step_on_items
        hydrate_Step_on_items on_items_comp comp_def)
  have "\<forall>st \<in> set (recipe_Steps r).
          length (filter (found_in (best_itemMap q its)) (map ?h (step_Items st))) =
          length (step_Items st)"
  proof
    fix st assume st: "st \<in> set (recipe_Steps r)"
    have "\<forall>si \<in> set (step_Items st). found_in (best_itemMap q its) (?h si)"
    proof
      fix si assume "si \<in> set (step_Items st)"
      with assms st have "si_ItemID si \<in> item_ID ` set its" by (simp add: resolved_def)
      from pipeline_resolved [OF this, of q] show "found_in (best_itemMap q its) (?h si)"
        by blast
    qed
    then have "filter (found_in (best_itemMap q its)) (map ?h (step_Items st)) =
               map ?h (step_Items st)"
      by (simp add: filter_id_conv)
    then show "length (filter (found_in (best_itemMap q its)) (map ?h (step_Items st))) =
               length (step_Items st)"
      by simp
  qed
  then show ?thesis
    unfolding steps by (simp add: comp_def cong: map_cong)
qed

lemma pass_known:
  assumes s: "scans_items e" and k: "knows_items e (items_coll w)" and f: "faults w = []"
    and d: "distinct (map recipe_ID (recipes_coll w))"
    and r: "\<forall>r \<in> set (recipes_coll w). \<not> recipe_Deleted r \<longrightarrow>
              \<not> IsZero (recipe_ID r) \<and> resolved (items_coll w) r"
  shows "CleanUpItemsInRecipes e w =
     (Returned (None, Some (count_StepItems (filter (\<lambda>r. \<not> recipe_Deleted r) (recipes_coll w)))),
      after_pass (GetItemQuality e) w)"
proof -
  let ?its = "items_coll w"
  let ?m = "best_itemMap (GetItemQuality e) ?its"
  let ?live = "filter (\<lambda>r. \<not> recipe_Deleted r) (recipes_coll w)"
  let ?rs0 = "map (\<lambda>r. MapItemIdsToItem (bson_Recipe r) ?its) ?live"
  from s f have g: "GetAllItems e w = ((?its, None), w)"
    by (simp add: scans_items_def)
  have ga: "GetAllRecipes e w = ((?rs0, None), w)"
    by (rule GetAllRecipes_known [OF s f])
  have cnt: "sum_list (map (\<lambda>r. sum_list (map (\<lambda>st. length (filter (found_in ?m) (step_Items st)))
                                     (recipe_Steps r))) ?rs0) =
             count_StepItems ?live"
  proof -
    have res: "\<And>x. x \<in> set ?live \<Longrightarrow> resolved ?its x" using r by simp
    have "map (\<lambda>x. sum_list (map (\<lambda>st. length (filter (found_in ?m) (step_Items st)))
                        (recipe_Steps (MapItemIdsToItem (bson_Recipe x) ?its)))) ?live =
          map (\<lambda>x. sum_list (map (\<lambda>st. length (step_Items st)) (recipe_Steps x))) ?live"
      by (rule map_cong [OF refl]) (rule found_all [OF res])
    then have "sum_list (map (\<lambda>x. sum_list (map (\<lambda>st. length (filter (found_in ?m) (step_Items st)))
                        (recipe_Steps (MapItemIdsToItem (bson_Recipe x) ?its)))) ?live) =
          sum_list (map (\<lambda>x. sum_list (map (\<lambda>st. length (step_Items st)) (recipe_Steps x))) ?live)"
      by (rule arg_cong)
    then show ?thesis
      unfolding count_StepItems_def map_map comp_def .
  qed
  have rw: "map (on_steps (clean_StepItem ?m)) ?rs0 = map (rewritten ?its ?m) ?live"
    by (simp add: rewritten_def comp_def)
  have cl: "clean_recipes ?m ?rs0 0 = (map (rewritten ?its ?m) ?live, count_StepItems ?live)"
    by (simp only: clean_recipes_eq cnt rw add_0)
  have pre: "\<forall>x \<in> set (map (rewritten ?its ?m) ?live).
               \<not> IsZero (recipe_ID x) \<and> items_known ?its x"
    using r by (auto simp: rewritten_items_known)
  have up: "update_recipes e (map (rewritten ?its ?m) ?live) w =
      (Returned None,
       w\<lparr>recipes_coll := fold write_back (map (rewritten ?its ?m) ?live) (recipes_coll w)\<rparr>)"
    by (rule update_recipes_known [OF k f refl pre])
  have fw: "fold write_back (map (rewritten ?its ?m) ?live) (recipes_coll w) =
        map (\<lambda>y. if \<not> recipe_Deleted y then canon_Recipe ?its ?m y else y) (recipes_coll w)"
    by (rule fold_write_back [OF d])
  show ?thesis
    by (simp add: CleanUpItemsInRecipes_def g ga cl up fw after_pass_def)
qed


lemma canon_Recipe_Deleted:
  "\<not> recipe_Deleted r \<Longrightarrow> \<not> recipe_Deleted (canon_Recipe its m r)"
  by (simp add: canon_Recipe_eq)

lemma canon_Recipe_resolved:
  assumes l: "\<not> recipe_Deleted r" and r: "resolved its r"
  shows "resolved its (canon_Recipe its (best_itemMap q its) r)"
  unfolding resolved_def canon_Recipe_eq [OF l]
proof (intro ballI)
  fix st si
  assume st: "st \<in> set (recipe_Steps
      (r\<lparr>recipe_Items := map strip_StepItem (recipe_Items r),
         recipe_Steps := map (on_items (canon_StepItem its (best_itemMap q its))) (recipe_Steps r)\<rparr>))"
    and si: "si \<in> set (step_Items st)"
  from st obtain st0 where st0: "st0 \<in> set (recipe_Steps r)"
    "st = on_items (canon_StepItem its (best_itemMap q its)) st0" by auto
  with si obtain si0 where si0: "si0 \<in> set (step_Items st0)"
    "si = canon_StepItem its (best_itemMap q its) si0" by auto
  from r st0(1) si0(1) have "si_ItemID si0 \<in> item_ID ` set its"
    by (simp add: resolved_def)
  then show "si_ItemID si \<in> item_ID ` set its"
    unfolding si0(2) by (rule canon_StepItem_ItemID)
qed

lemma canon_Recipe_idem:
  assumes d: "distinct (map item_ID its)" and l: "\<not> recipe_Deleted r" and r: "resolved its r"
  shows "canon_Recipe its (best_itemMap q its) (canon_Recipe its (best_itemMap q its) r) =
         canon_Recipe its (best_itemMap q its) r"
proof -
  let ?c = "canon_StepItem its (best_itemMap q its)"
  have st: "\<And>st. st \<in> set (recipe_Steps r) \<Longrightarrow> on_items ?c (on_items ?c st) = on_items ?c st"
  proof -
    fix st assume s: "st \<in> set (recipe_Steps r)"
    have "map (\<lambda>si. ?c (?c si)) (step_Items st) = map ?c (step_Items st)"
    proof (rule map_cong [OF refl])
      fix si assume "si \<in> set (step_Items st)"
      with r s have "si_ItemID si \<in> item_ID ` set its" by (simp add: resolved_def)
      then show "?c (?c si) = ?c si" by (rule canon_StepItem_idem [OF d])
    qed
    then show "on_items ?c (on_items ?c st) = on_items ?c st"
      by (simp add: on_items_def comp_def)
  qed
  have steps: "map (\<lambda>st. on_items ?c (on_items ?c st)) (recipe_Steps r) =
               map (on_items ?c) (recipe_Steps r)"
    by (rule map_cong [OF refl]) (rule st)
  from l have l': "\<not> recipe_Deleted (canon_Recipe its (best_itemMap q its) r)"
    by (rule canon_Recipe_Deleted)
  show ?thesis
    unfolding canon_Recipe_eq [OF l']
    unfolding canon_Recipe_eq [OF l]
    by (simp add: comp_def steps)
qed

lemma count_canon:
  "\<not> recipe_Deleted r \<Longrightarrow>
   sum_list (map (\<lambda>st. length (step_Items st)) (recipe_Steps (canon_Recipe its m r))) =
   sum_list (map (\<lambda>st. length (step_Items st)) (recipe_Steps r))"
  by (simp add: canon_Recipe_eq comp_def)

text \<open>
  Claim C2, as amended. Take a store that does not fail, in which the ids of the items
  and of the recipes are unique and every recipe that is not deleted has a non-zero id
  and refers to stored items only, and let \<open>GetAllItems\<close> and \<open>AddOrUpdateItem\<close> behave
  as \<open>scans_items\<close> and \<open>knows_items\<close> say. Then a pass succeeds and leaves a store on
  which a second pass succeeds and changes nothing. The number that the second pass
  reports is not zero, though: both passes report the number of all step items of the
  recipes that are not deleted, since the loop counts a step item whenever its item's
  name has an entry, whether its reference changes or not.
\<close>

theorem CleanUpItemsInRecipes_twice:
  assumes s: "scans_items e" and k: "knows_items e (items_coll w)" and f: "faults w = []"
    and di: "distinct (map item_ID (items_coll w))"
    and d: "distinct (map recipe_ID (recipes_coll w))"
    and r: "\<forall>r \<in> set (recipes_coll w). \<not> recipe_Deleted r \<longrightarrow>
              \<not> IsZero (recipe_ID r) \<and> resolved (items_coll w) r"
  shows "\<exists>w1. CleanUpItemsInRecipes e w =
           (Returned (None,
              Some (count_StepItems (filter (\<lambda>r. \<not> recipe_Deleted r) (recipes_coll w)))), w1) \<and>
         CleanUpItemsInRecipes e w1 =
           (Returned (None,
              Some (count_StepItems (filter (\<lambda>r. \<not> recipe_Deleted r) (recipes_coll w)))), w1)"
proof -
  let ?its = "items_coll w"
  let ?m = "best_itemMap (GetItemQuality e) ?its"
  let ?F = "\<lambda>r. if \<not> recipe_Deleted r then canon_Recipe ?its ?m r else r"
  let ?w1 = "after_pass (GetItemQuality e) w"
  have first: "CleanUpItemsInRecipes e w =
     (Returned (None, Some (count_StepItems (filter (\<lambda>r. \<not> recipe_Deleted r) (recipes_coll w)))),
      ?w1)"
    by (rule pass_known [OF s k f d r])
  have its1: "items_coll ?w1 = ?its" and f1: "faults ?w1 = []"
    and rc1: "recipes_coll ?w1 = map ?F (recipes_coll w)"
    using f by (simp_all add: after_pass_def)
  have k1: "knows_items e (items_coll ?w1)" using k its1 by simp
  have FD: "\<And>x. recipe_Deleted (?F x) = recipe_Deleted x"
    by (simp add: canon_Recipe_eq)
  have FI: "\<And>x. recipe_ID (?F x) = recipe_ID x" by simp
  have d1: "distinct (map recipe_ID (recipes_coll ?w1))"
    unfolding rc1 map_map comp_def FI using d by simp
  have r1: "\<forall>x \<in> set (recipes_coll ?w1). \<not> recipe_Deleted x \<longrightarrow>
              \<not> IsZero (recipe_ID x) \<and> resolved (items_coll ?w1) x"
  proof (intro ballI impI)
    fix x assume x: "x \<in> set (recipes_coll ?w1)" and l: "\<not> recipe_Deleted x"
    from x obtain y where y: "y \<in> set (recipes_coll w)" "x = ?F y"
      unfolding rc1 by auto
    from l y(2) FD [of y] have ly: "\<not> recipe_Deleted y" by simp
    with r y(1) have ry: "\<not> IsZero (recipe_ID y)" "resolved ?its y" by simp_all
    from ly y(2) have xc: "x = canon_Recipe ?its ?m y" by simp
    have "resolved ?its x" unfolding xc by (rule canon_Recipe_resolved [OF ly ry(2)])
    moreover have "\<not> IsZero (recipe_ID x)" unfolding xc using ry(1) by simp
    ultimately show "\<not> IsZero (recipe_ID x) \<and> resolved (items_coll ?w1) x"
      unfolding its1 by simp
  qed
  have second: "CleanUpItemsInRecipes e ?w1 =
     (Returned (None, Some (count_StepItems (filter (\<lambda>r. \<not> recipe_Deleted r) (recipes_coll ?w1)))),
      after_pass (GetItemQuality e) ?w1)"
    by (rule pass_known [OF s k1 f1 d1 r1])
  have FF: "map ?F (map ?F (recipes_coll w)) = map ?F (recipes_coll w)"
  proof -
    have "\<And>y. y \<in> set (recipes_coll w) \<Longrightarrow> ?F (?F y) = ?F y"
    proof -
      fix y assume y: "y \<in> set (recipes_coll w)"
      show "?F (?F y) = ?F y"
      proof (cases "recipe_Deleted y")
        case True
        then show ?thesis by simp
      next
        case False
        with r y have "resolved ?its y" by simp
        from canon_Recipe_idem [OF di False this, of "GetItemQuality e"]
          canon_Recipe_Deleted [OF False, of ?its ?m] False
        show ?thesis by simp
      qed
    qed
    then have "map (\<lambda>y. ?F (?F y)) (recipes_coll w) = map ?F (recipes_coll w)"
      by (rule map_cong [OF refl])
    then show ?thesis unfolding map_map comp_def .
  qed
  have stable: "after_pass (GetItemQuality e) ?w1 = ?w1"
  proof -
    have "after_pass (GetItemQuality e) ?w1 = ?w1\<lparr>recipes_coll := map ?F (recipes_coll ?w1)\<rparr>"
      unfolding after_pass_def [of _ ?w1] its1 ..
    also have "\<dots> = ?w1\<lparr>recipes_coll := recipes_coll ?w1\<rparr>"
      unfolding rc1 FF ..
    also have "\<dots> = ?w1" by simp
    finally show ?thesis .
  qed
  have cnt: "count_StepItems (filter (\<lambda>r. \<not> recipe_Deleted r) (recipes_coll ?w1)) =
             count_StepItems (filter (\<lambda>r. \<not> recipe_Deleted r) (recipes_coll w))"
  proof -
    have fl: "filter (\<lambda>r. \<not> recipe_Deleted r) (map ?F (recipes_coll w)) =
              map ?F (filter (\<lambda>r. \<not> recipe_Deleted r) (recipes_coll w))"
      unfolding filter_map comp_def FD ..
    have "map (\<lambda>x. sum_list (map (\<lambda>st. length (step_Items st)) (recipe_Steps (?F x))))
              (filter (\<lambda>r. \<not> recipe_Deleted r) (recipes_coll w)) =
          map (\<lambda>x. sum_list (map (\<lambda>st. length (step_Items st)) (recipe_Steps x)))
              (filter (\<lambda>r. \<not> recipe_Deleted r) (recipes_coll w))"
      by (rule map_cong [OF refl]) (simp add: count_canon)
    then have "sum_list (map (\<lambda>x. sum_list (map (\<lambda>st. length (step_Items st)) (recipe_Steps (?F x))))
              (filter (\<lambda>r. \<not> recipe_Deleted r) (recipes_coll w))) =
          sum_list (map (\<lambda>x. sum_list (map (\<lambda>st. length (step_Items st)) (recipe_Steps x)))
              (filter (\<lambda>r. \<not> recipe_Deleted r) (recipes_coll w)))"
      by (rule arg_cong)
    then show ?thesis
      unfolding rc1 fl count_StepItems_def map_map comp_def .
  qed
  from first second stable cnt show ?thesis by auto
qed


lemma kitchen_faulty_run:
  "CleanUpItemsInRecipes demo_env kitchen_faulty =
     (Returned (Some (Error ''write failed''), None), kitchen)"
  by (simp only: CleanUpItemsInRecipes_def faulty_items faulty_recipes demo_env_store(1)
      kitchen_map kitchen_cleaned update_recipes.simps faulty_write prod.case option.case
      outcome.case Let_def demo_env_simps(1) spec_LogError_def)

lemma kitchen_clean_simps:
  "items_coll kitchen_clean = [flour_A, flour_B, salt]"
  "recipes_coll kitchen_clean =
     [recipe_of 11 [step_of [stepItem_of 24]], recipe_of 10 [step_of [stepItem_of 22]]]"
  "faults kitchen_clean = []"
  by (simp_all add: kitchen_clean_def kitchen_simps)

lemma second_items:
  "GetAllItems demo_env kitchen_clean = (([flour_A, flour_B, salt], None), kitchen_clean)"
  by (simp add: demo_env_store spec_GetAllItems_def store_call_def kitchen_clean_simps)

lemma second_recipes:
  "GetAllRecipes demo_env kitchen_clean =
     (([recipe_of 11 [step_of [(stepItem_of 24)\<lparr>si_Item := salt\<rparr>]],
        recipe_of 10 [step_of [(stepItem_of 22)\<lparr>si_Item := flour_B\<rparr>]]], None), kitchen_clean)"
  by (simp add: GetAllRecipes_def demo_env_store spec_GetAllItems_def store_call_def
      kitchen_clean_simps)

lemma second_cleaned:
  "clean_recipes [''Flour'' \<mapsto> flour_B, ''Salt'' \<mapsto> salt]
     [recipe_of 11 [step_of [(stepItem_of 24)\<lparr>si_Item := salt\<rparr>]],
      recipe_of 10 [step_of [(stepItem_of 22)\<lparr>si_Item := flour_B\<rparr>]]] 0 =
   ([recipe_of 11 [step_of [(stepItem_of 24)\<lparr>si_Item := salt\<rparr>]],
     recipe_of 10 [step_of [(stepItem_of 22)\<lparr>si_Item := flour_B\<rparr>]]], 2)"
  by (simp add: recipe_of_def step_of_def stepItem_of_def)

lemma second_write_11:
  "AddOrUpdateRecipe demo_env (recipe_of 11 [step_of [(stepItem_of 24)\<lparr>si_Item := salt\<rparr>]])
     kitchen_clean = (Returned (11, None), kitchen_clean)"
  by (simp add: AddOrUpdateRecipe_def prepare_example IsZero_def store_call_def
      kitchen_clean_simps set_recipe_example)

lemma second_write_10:
  "AddOrUpdateRecipe demo_env (recipe_of 10 [step_of [(stepItem_of 22)\<lparr>si_Item := flour_B\<rparr>]])
     kitchen_clean = (Returned (10, None), kitchen_clean)"
  by (simp add: AddOrUpdateRecipe_def prepare_example IsZero_def store_call_def
      kitchen_clean_simps set_recipe_example)

lemma kitchen_clean_run:
  "CleanUpItemsInRecipes demo_env kitchen_clean = (Returned (None, Some 2), kitchen_clean)"
  by (simp only: CleanUpItemsInRecipes_def second_items second_recipes kitchen_map
      second_cleaned update_recipes.simps second_write_11 second_write_10 demo_env_store(1)
      prod.case option.case outcome.case Let_def)

text \<open>
  The claim C1 as stated fails in the example kitchen: the write of recipe 11 fails, the
  pass returns the error, and recipe 10 is left with its reference to item 21, which a
  pass without failure rewrites to item 22.
\<close>

theorem CleanUpItemsInRecipes_isolation_counterexample:
  "fst (CleanUpItemsInRecipes demo_env kitchen_faulty) =
     Returned (Some (Error ''write failed''), None) \<and>
   recipes_coll (snd (CleanUpItemsInRecipes demo_env kitchen_faulty)) =
     [recipe_of 11 [step_of [stepItem_of 24]], recipe_of 10 [step_of [stepItem_of 21]]] \<and>
   recipes_coll (snd (CleanUpItemsInRecipes demo_env kitchen)) =
     [recipe_of 11 [step_of [stepItem_of 24]], recipe_of 10 [step_of [stepItem_of 22]]]"
  by (simp add: kitchen_faulty_run kitchen_run kitchen_simps kitchen_clean_simps)

text \<open>
  The claim C2 as stated fails in the example kitchen: the second of two passes in a row
  reports two references again, not zero.
\<close>

theorem CleanUpItemsInRecipes_report_counterexample:
  "fst (CleanUpItemsInRecipes demo_env kitchen) = Returned (None, Some 2) \<and>
   fst (CleanUpItemsInRecipes demo_env (snd (CleanUpItemsInRecipes demo_env kitchen))) =
     Returned (None, Some 2)"
  by (simp add: kitchen_run kitchen_clean_run)

theorem CleanUpItemsInRecipes_twice_witness:
  "scans_items demo_env \<and> knows_items demo_env (items_coll kitchen) \<and> faults kitchen = [] \<and>
   distinct (map item_ID (items_coll kitchen)) \<and>
   distinct (map recipe_ID (recipes_coll kitchen)) \<and>
   (\<exists>w1. CleanUpItemsInRecipes demo_env kitchen = (Returned (None, Some 2), w1) \<and>
         CleanUpItemsInRecipes demo_env w1 = (Returned (None, Some 2), w1))"
proof -
  have s: "scans_items demo_env"
    by (simp add: scans_items_def demo_env_store spec_GetAllItems_def store_call_no_faults)
  have k: "knows_items demo_env (items_coll kitchen)"
    unfolding knows_items_def
  proof (intro allI impI)
    fix it and v :: world
    assume a: "faults v = [] \<and> items_coll v = items_coll kitchen \<and> it \<in> set (items_coll kitchen)"
    then have "it = flour_A \<or> it = flour_B \<or> it = salt" by (simp add: kitchen_simps)
    then have "\<not> IsZero (item_ID it)" by (auto simp: IsZero_def)
    then show "AddOrUpdateItem demo_env it v = (Returned (item_ID it, None), v)"
      by (simp add: demo_env_store spec_AddOrUpdateItem_def)
  qed
  have f: "faults kitchen = []" by (simp add: kitchen_simps)
  have di: "distinct (map item_ID (items_coll kitchen))" by (simp add: kitchen_simps)
  have d: "distinct (map recipe_ID (recipes_coll kitchen))" by (simp add: kitchen_simps)
  have r: "\<forall>r \<in> set (recipes_coll kitchen). \<not> recipe_Deleted r \<longrightarrow>
              \<not> IsZero (recipe_ID r) \<and> resolved (items_coll kitchen) r"
    by (simp add: kitchen_simps resolved_def IsZero_def)
  have c: "count_StepItems (filter (\<lambda>r. \<not> recipe_Deleted r) (recipes_coll kitchen)) = 2"
    by (simp add: kitchen_simps count_StepItems_def)
  from CleanUpItemsInRecipes_twice [OF s k f di d r]
  have e: "\<exists>w1. CleanUpItemsInRecipes demo_env kitchen = (Returned (None, Some 2), w1) \<and>
         CleanUpItemsInRecipes demo_env w1 = (Returned (None, Some 2), w1)"
    unfolding c .
  from s k f di d e show ?thesis by (intro conjI)
qed

section \<open>Ingestion on a store that does not fail\<close>

text \<open>
  On a store that does not fail, \<open>AddDiscounts\<close> returns no error for discounts that
  come without an id, as those fetched from a market do, and the store does not fail
  afterwards either.
\<close>

lemma upsert_succeeds:
  assumes "faults w = []" "IsZero (disc_ID d)"
  shows "fst (UpdateOne_discount_upsert d w) = None \<and>
         faults (snd (UpdateOne_discount_upsert d w)) = []"
  using assms
  by (simp add: UpdateOne_discount_upsert_def store_call_no_faults split: option.split)

lemma AddDiscounts_succeeds:
  "faults w = [] \<Longrightarrow> \<forall>d \<in> set ds. IsZero (disc_ID d) \<Longrightarrow> fst (AddDiscounts e ds w) = None"
proof (induction ds arbitrary: w)
  case Nil
  show ?case by simp
next
  case (Cons d ds)
  obtain r v where up: "UpdateOne_discount_upsert d w = (r, v)"
    by (cases "UpdateOne_discount_upsert d w")
  from Cons.prems have "IsZero (disc_ID d)" by simp
  from upsert_succeeds [OF Cons.prems(1) this] up have r: "r = None" and v: "faults v = []"
    by simp_all
  from Cons.prems(2) have "\<forall>d \<in> set ds. IsZero (disc_ID d)" by simp
  from Cons.IH [OF v this] up r show ?case by simp
qed

lemma AddDiscounts_faults:
  "faults w = [] \<Longrightarrow> \<forall>d \<in> set ds. IsZero (disc_ID d) \<Longrightarrow> faults (snd (AddDiscounts e ds w)) = []"
proof (induction ds arbitrary: w)
  case Nil
  then show ?case by simp
next
  case (Cons d ds)
  obtain r v where up: "UpdateOne_discount_upsert d w = (r, v)"
    by (cases "UpdateOne_discount_upsert d w")
  from Cons.prems have "IsZero (disc_ID d)" by simp
  from upsert_succeeds [OF Cons.prems(1) this] up have r: "r = None" and v: "faults v = []"
    by simp_all
  from Cons.prems(2) have "\<forall>d \<in> set ds. IsZero (disc_ID d)" by simp
  from Cons.IH [OF v this] up r show ?case by simp
qed

text \<open>
  Two deliveries on the shelf: the first updates the pasta offer of market M1 and inserts
  those of M9 and M7, which the shelf does not hold; the second names M9 and M1 again.
\<close>

theorem AddDiscounts_upsert_idempotent_witness:
  "map (\<lambda>d. length (filter (same_key d) (discounts_coll shelf)))
     (first_delivery @ second_delivery) = [1, 0, 0, 0, 1] \<and>
   fst (AddDiscounts demo_env first_delivery shelf) = None \<and>
   fst (AddDiscounts demo_env second_delivery
          (snd (AddDiscounts demo_env first_delivery shelf))) = None \<and>
   filter (same_key (pasta ''M9'' ''1.49'')) (discounts_coll shelf) = [] \<and>
   (\<exists>r. filter (same_key (pasta ''M9'' ''1.49''))
          (discounts_coll (snd (AddDiscounts demo_env second_delivery
             (snd (AddDiscounts demo_env first_delivery shelf))))) = [r] \<and>
        r = (pasta ''M9'' ''1.49'')\<lparr>disc_ID := disc_ID r\<rparr>) \<and>
   (\<exists>r. filter (same_key (pasta ''M1'' ''1.59''))
          (discounts_coll (snd (AddDiscounts demo_env second_delivery
             (snd (AddDiscounts demo_env first_delivery shelf))))) = [r] \<and>
        r = (pasta ''M1'' ''1.59'')\<lparr>disc_ID := disc_ID r\<rparr>) \<and>
   (\<exists>r. filter (same_key (pasta ''M7'' ''2.49''))
          (discounts_coll (snd (AddDiscounts demo_env second_delivery
             (snd (AddDiscounts demo_env first_delivery shelf))))) = [r] \<and>
        r = (pasta ''M7'' ''2.49'')\<lparr>disc_ID := disc_ID r\<rparr>) \<and>
   filter (same_key milk)
     (discounts_coll (snd (AddDiscounts demo_env second_delivery
        (snd (AddDiscounts demo_env first_delivery shelf))))) = [milk]"
proof -
  let ?w1 = "snd (AddDiscounts demo_env first_delivery shelf)"
  let ?w2 = "snd (AddDiscounts demo_env second_delivery ?w1)"
  have f: "faults shelf = []" by (simp add: shelf_def empty_world_def)
  have z1: "\<forall>d \<in> set first_delivery. IsZero (disc_ID d)"
    by (simp add: first_delivery_def pasta_def IsZero_def)
  have z2: "\<forall>d \<in> set second_delivery. IsZero (disc_ID d)"
    by (simp add: second_delivery_def pasta_def IsZero_def)
  have s1: "fst (AddDiscounts demo_env first_delivery shelf) = None"
    by (rule AddDiscounts_succeeds [OF f z1])
  have f1: "faults ?w1 = []" by (rule AddDiscounts_faults [OF f z1])
  have s2: "fst (AddDiscounts demo_env second_delivery ?w1) = None"
    by (rule AddDiscounts_succeeds [OF f1 z2])
  from s1 have r1: "AddDiscounts demo_env first_delivery shelf = (None, ?w1)"
    by (simp add: prod_eq_iff)
  from s2 have r2: "AddDiscounts demo_env second_delivery ?w1 = (None, ?w2)"
    by (simp add: prod_eq_iff)
  have u: "\<forall>d \<in> set (first_delivery @ second_delivery).
      length (filter (same_key d) (discounts_coll shelf)) \<le> 1"
    by (simp add: first_delivery_def second_delivery_def shelf_def empty_world_def
        same_key_def pasta_def milk_def)
  have n: "filter (same_key (pasta ''M9'' ''1.49'')) (discounts_coll shelf) = []"
    by (simp add: shelf_def empty_world_def same_key_def pasta_def milk_def)
  have m9: "pasta ''M9'' ''1.49'' \<in> set second_delivery"
    and m1: "pasta ''M1'' ''1.59'' \<in> set second_delivery"
    and m7: "pasta ''M7'' ''2.49'' \<in> set first_delivery"
    by (simp_all add: first_delivery_def second_delivery_def)
  have l9: "last (filter (same_key (pasta ''M9'' ''1.49'')) second_delivery) = pasta ''M9'' ''1.49''"
    and l1: "last (filter (same_key (pasta ''M1'' ''1.59'')) second_delivery) = pasta ''M1'' ''1.59''"
    and l7: "last (filter (same_key (pasta ''M7'' ''2.49'')) first_delivery) = pasta ''M7'' ''2.49''"
    by (simp_all add: first_delivery_def second_delivery_def same_key_def pasta_def)
  have n7: "\<forall>d2 \<in> set second_delivery. \<not> same_key (pasta ''M7'' ''2.49'') d2"
    by (simp add: second_delivery_def same_key_def pasta_def)
  have nm: "\<forall>d \<in> set (first_delivery @ second_delivery). \<not> same_key milk d"
    by (simp add: first_delivery_def second_delivery_def same_key_def pasta_def milk_def)
  have sm: "filter (same_key milk) (discounts_coll shelf) = [milk]"
    by (simp add: shelf_def empty_world_def same_key_def pasta_def milk_def)
  note t = AddDiscounts_upsert_idempotent [OF u r1 r2]
  from t [THEN conjunct1, THEN bspec, OF m9]
  have a9: "\<exists>r. filter (same_key (pasta ''M9'' ''1.49'')) (discounts_coll ?w2) = [r] \<and>
        r = (pasta ''M9'' ''1.49'')\<lparr>disc_ID := disc_ID r\<rparr>"
    unfolding l9 .
  from t [THEN conjunct1, THEN bspec, OF m1]
  have a1: "\<exists>r. filter (same_key (pasta ''M1'' ''1.59'')) (discounts_coll ?w2) = [r] \<and>
        r = (pasta ''M1'' ''1.59'')\<lparr>disc_ID := disc_ID r\<rparr>"
    unfolding l1 .
  from t [THEN conjunct2, THEN conjunct1, THEN bspec, OF m7, THEN mp, OF n7]
  have a7: "\<exists>r. filter (same_key (pasta ''M7'' ''2.49'')) (discounts_coll ?w2) = [r] \<and>
        r = (pasta ''M7'' ''2.49'')\<lparr>disc_ID := disc_ID r\<rparr>"
    unfolding l7 .
  from t [THEN conjunct2, THEN conjunct2, THEN spec, of milk, THEN mp, OF nm]
  have am: "filter (same_key milk) (discounts_coll ?w2) = [milk]"
    unfolding sm .
  have c: "map (\<lambda>d. length (filter (same_key d) (discounts_coll shelf)))
     (first_delivery @ second_delivery) = [1, 0, 0, 0, 1]"
    by (simp add: first_delivery_def second_delivery_def shelf_def empty_world_def
        same_key_def pasta_def milk_def)
  from c s1 s2 n a9 a1 a7 am show ?thesis by (intro conjI)
qed

end
